theory Spec2Isabelle
  imports Complex_Main "HOL-Library.Word" "HOL-Library.Monad_Syntax"
begin

unbundle bit_operations_syntax

section \<open>Data model of \<^verbatim>\<open>kernel/src/vx_spawn.c\<close>\<close>

text \<open>
  All quantities of the launch runtime are \<^verbatim>\<open>uint32_t\<close>: they are modelled as 32-bit
  words, so that \<open>+\<close>, \<open>-\<close> and \<open>*\<close> wrap around as in C, \<open>div\<close> and \<open>mod\<close> are the
  unsigned \<^verbatim>\<open>/\<close> and \<^verbatim>\<open>%\<close>, and \<open><\<close> is the unsigned comparison.

  A division by zero is undefined in C and total in HOL (\<open>x div 0 = 0\<close>,
  \<open>x mod 0 = x\<close>). The two agree on every path that a valid device executes, because
  no divisor is zero there: the lanes of a warp, the warps of a core and their product
  are nonzero; the warps of a block are nonzero and, once the capacity check has
  passed, at most the warps of a core (lemmas \<open>warps_per_group_pos\<close> and
  \<open>validated_warps_per_group\<close>), so that the active warps of a core are nonzero; a core
  that goes past the early return has a nonzero number of active cores; and no core is
  active for an empty grid (lemmas \<open>groups_active_cores_zero\<close> and
  \<open>tasks_active_cores_zero\<close>), so that the loops decompose indices only over
  dimensions whose product is nonzero (lemma \<open>volume_nonzero_axes\<close>).
\<close>

type_synonym u32 = "32 word"

text \<open>
  \<^verbatim>\<open>dim3_t\<close> (declared in \<^verbatim>\<open>vx_spawn.h\<close>): three \<^verbatim>\<open>uint32_t\<close> that the source reads as
  \<^verbatim>\<open>.x\<close>, \<^verbatim>\<open>.y\<close>, \<^verbatim>\<open>.z\<close> and writes as \<^verbatim>\<open>.m[0]\<close>, \<^verbatim>\<open>.m[1]\<close>, \<^verbatim>\<open>.m[2]\<close>.
\<close>

datatype dim3_t = Dim3 (dim_x: u32) (dim_y: u32) (dim_z: u32)

fun set_m :: "nat \<Rightarrow> u32 \<Rightarrow> dim3_t \<Rightarrow> dim3_t" where
  "set_m i v (Dim3 a b c) =
     (if i = 0 then Dim3 v b c else if i = 1 then Dim3 a v c else Dim3 a b v)"

text \<open>
  The device identity queries \<^verbatim>\<open>vx_num_cores()\<close>, \<^verbatim>\<open>vx_num_warps()\<close> and
  \<^verbatim>\<open>vx_num_threads()\<close> are hardware intrinsics (\<^verbatim>\<open>vx_intrinsics.h\<close>); their values are
  parameters of the model. \<^verbatim>\<open>vx_core_id()\<close>, \<^verbatim>\<open>vx_warp_id()\<close> and \<^verbatim>\<open>vx_thread_id()\<close>
  are passed to each function as the arguments \<open>core_id\<close>, \<open>warp_id\<close>, \<open>thread_id\<close>.
\<close>

record device =
  vx_num_cores :: u32
  vx_num_warps :: u32
  vx_num_threads :: u32

text \<open>
  A device has at least one core, one warp per core and one lane per warp; a thread
  mask is a 32-bit value, so a warp has at most 32 lanes; and the lanes of one core
  are countable in 32 bits.
\<close>

definition valid_device :: "device \<Rightarrow> bool" where
  "valid_device dev \<longleftrightarrow>
     0 < vx_num_cores dev \<and> 0 < vx_num_warps dev \<and> 0 < vx_num_threads dev \<and>
     vx_num_threads dev \<le> 32 \<and>
     unat (vx_num_warps dev) * unat (vx_num_threads dev) < 2 ^ 32"

text \<open>
  The two descriptors passed through the scratch CSR (lines 34-52). The fields
  \<^verbatim>\<open>callback\<close> and \<^verbatim>\<open>arg\<close> are left out: the user kernel is opaque, and each of its
  invocations is recorded in the log \<open>calls\<close> of the core state below. The fields
  \<^verbatim>\<open>warp_batches\<close> and \<^verbatim>\<open>remaining_warps\<close> of the threads variant carry the suffix
  \<open>_t\<close>.
\<close>

record wspawn_groups_args_t =
  group_offset :: u32
  warp_batches :: u32
  remaining_warps :: u32
  warps_per_group :: u32
  groups_per_core :: u32
  remaining_mask :: u32

record wspawn_threads_args_t =
  all_tasks_offset :: u32
  remain_tasks_offset :: u32
  warp_batches_t :: u32
  remaining_warps_t :: u32

text \<open>The \<^verbatim>\<open>__thread\<close> variables of lines 26-31, one copy per lane of each warp.\<close>

record tls_t =
  blockIdx :: dim3_t
  threadIdx :: dim3_t
  local_group_id :: u32

text \<open>What \<^verbatim>\<open>VX_CSR_MSCRATCH\<close> points to.\<close>

datatype scratch =
  NoDescriptor
  | GroupsArgs wspawn_groups_args_t
  | ThreadsArgs wspawn_threads_args_t

text \<open>The entry points handed to \<^verbatim>\<open>vx_wspawn\<close>; \<open>NullStub\<close> is the null pointer.\<close>

datatype stub = ProcessThreadGroupsStub | ProcessThreadsStub | NullStub

text \<open>
  One invocation of the user kernel: the warp and lane that ran it, and the
  thread-local variables the kernel sees.
\<close>

record kernel_call =
  call_warp :: u32
  call_thread :: u32
  call_tls :: tls_t

text \<open>
  The state of one core: the globals \<^verbatim>\<open>gridDim\<close>, \<^verbatim>\<open>blockDim\<close> and
  \<^verbatim>\<open>__warps_per_group\<close> (lines 28-32), the scratch CSR, the thread mask of each warp,
  the thread-local variables of each lane of each warp, and three logs: the kernel
  invocations, the \<^verbatim>\<open>vx_wspawn\<close> requests and the \<^verbatim>\<open>vx_printf\<close> messages (the two
  numbers printed). Warps and lanes run concurrently on the hardware; the model runs
  them one after the other, so the order of \<open>calls\<close> across lanes and warps carries no
  meaning, only its content does.
\<close>

record core_state =
  gridDim :: dim3_t
  blockDim :: dim3_t
  warps_per_group_global :: u32
  mscratch :: scratch
  tmask :: "u32 \<Rightarrow> u32"
  tls :: "u32 \<Rightarrow> u32 \<Rightarrow> tls_t"
  calls :: "kernel_call list"
  wspawns :: "(u32 \<times> stub) list"
  console :: "(u32 \<times> u32) list"

section \<open>Hardware primitives\<close>

text \<open>
  Modelled from the spec: the thread-mask control \<^verbatim>\<open>vx_tmc\<close> of \<^verbatim>\<open>vx_intrinsics.h\<close>,
  which is not part of the sources ("set lane-mask to arbitrary 32-bit value; set to
  single-lane; set to all-ones; set to zero (disables warp)"). The mask is the one of
  the calling warp.
\<close>

definition vx_tmc :: "u32 \<Rightarrow> u32 \<Rightarrow> core_state \<Rightarrow> core_state" where
  "vx_tmc warp_id m s = s\<lparr>tmask := (tmask s)(warp_id := m)\<rparr>"

definition vx_tmc_one :: "u32 \<Rightarrow> core_state \<Rightarrow> core_state" where
  "vx_tmc_one warp_id s = vx_tmc warp_id 1 s"

definition vx_tmc_zero :: "u32 \<Rightarrow> core_state \<Rightarrow> core_state" where
  "vx_tmc_zero warp_id s = vx_tmc warp_id 0 s"

text \<open>
  Modelled from the spec: the lanes of a warp that execute under a mask ("per-warp
  bitmask selecting which lanes execute the next instructions"): lane \<open>t\<close> of the
  \<^verbatim>\<open>vx_num_threads()\<close> lanes runs when bit \<open>t\<close> of the mask is set.
\<close>

definition lanes_of_mask :: "device \<Rightarrow> u32 \<Rightarrow> u32 list" where
  "lanes_of_mask dev m =
     filter (\<lambda>t. bit m (unat t)) (map of_nat [0 ..< unat (vx_num_threads dev)])"

definition active_lanes :: "device \<Rightarrow> u32 \<Rightarrow> core_state \<Rightarrow> u32 list" where
  "active_lanes dev warp_id s = lanes_of_mask dev (tmask s warp_id)"

text \<open>Running a piece of code for each element of a list, stopping when one does not return.\<close>

fun for_each :: "('a \<Rightarrow> core_state \<Rightarrow> core_state option) \<Rightarrow> 'a list \<Rightarrow> core_state \<Rightarrow>
    core_state option" where
  "for_each f [] s = Some s"
| "for_each f (a # as) s = (case f a s of None \<Rightarrow> None | Some s' \<Rightarrow> for_each f as s')"

text \<open>SIMT execution: the code \<open>f\<close> runs on every active lane of the warp.\<close>

definition simt :: "device \<Rightarrow> u32 \<Rightarrow> (u32 \<Rightarrow> core_state \<Rightarrow> core_state option) \<Rightarrow>
    core_state \<Rightarrow> core_state option" where
  "simt dev warp_id f s = for_each f (active_lanes dev warp_id s) s"

definition csr_write :: "scratch \<Rightarrow> core_state \<Rightarrow> core_state" where
  "csr_write d s = s\<lparr>mscratch := d\<rparr>"

section \<open>The kernel bodies\<close>

text \<open>The call \<^verbatim>\<open>callback((void*)arg)\<close>: the invocation is logged with what the lane sees.\<close>

definition callback :: "u32 \<Rightarrow> u32 \<Rightarrow> core_state \<Rightarrow> core_state" where
  "callback warp_id thread_id s =
     s\<lparr>calls := calls s @
        [\<lparr>call_warp = warp_id, call_thread = thread_id, call_tls = tls s warp_id thread_id\<rparr>]\<rparr>"

definition update_tls :: "u32 \<Rightarrow> u32 \<Rightarrow> (tls_t \<Rightarrow> tls_t) \<Rightarrow> core_state \<Rightarrow> core_state" where
  "update_tls warp_id thread_id f s =
     s\<lparr>tls := (tls s)(warp_id := (tls s warp_id)(thread_id := f (tls s warp_id thread_id)))\<rparr>"

text \<open>The x-fastest decomposition of lines 76-78, 124-126 and 132-134.\<close>

definition decompose :: "dim3_t \<Rightarrow> u32 \<Rightarrow> dim3_t" where
  "decompose d i = Dim3 (i mod dim_x d) ((i div dim_x d) mod dim_y d) (i div (dim_x d * dim_y d))"

text \<open>
  The loops of lines 75-80 (\<^verbatim>\<open>process_threads\<close>) and 131-136
  (\<^verbatim>\<open>process_thread_groups\<close>) are the same loop up to the names of their variables:
  \<^verbatim>\<open>for (id = start; id < end; id += step) { blockIdx = ...; callback(arg); }\<close>.
  With 32-bit wrap-around such a loop need not end in general, so the result is an
  option.
\<close>

partial_function (option) dispatch_loop :: "u32 \<Rightarrow> u32 \<Rightarrow> u32 \<Rightarrow> u32 \<Rightarrow> u32 \<Rightarrow>
    core_state \<Rightarrow> core_state option" where
  "dispatch_loop i end_i step warp_id thread_id s =
     (if i < end_i then
        dispatch_loop (i + step) end_i step warp_id thread_id
          (callback warp_id thread_id
             (update_tls warp_id thread_id (\<lambda>l. l\<lparr>blockIdx := decompose (gridDim s) i\<rparr>) s))
      else Some s)"

declare dispatch_loop.simps [code]

text \<open>Lines 61-62 of \<^verbatim>\<open>process_threads\<close>.\<close>

definition threads_start_warp :: "wspawn_threads_args_t \<Rightarrow> u32 \<Rightarrow> u32" where
  "threads_start_warp targs warp_id =
     warp_id * warp_batches_t targs + min warp_id (remaining_warps_t targs)"

definition threads_iterations :: "wspawn_threads_args_t \<Rightarrow> u32 \<Rightarrow> u32" where
  "threads_iterations targs warp_id =
     warp_batches_t targs + (if warp_id < remaining_warps_t targs then 1 else 0)"

text \<open>\<^verbatim>\<open>process_threads\<close> (lines 54-81), as run by one lane.\<close>

definition process_threads :: "device \<Rightarrow> u32 \<Rightarrow> u32 \<Rightarrow> core_state \<Rightarrow> core_state option" where
  "process_threads dev warp_id thread_id s =
     (case mscratch s of
        ThreadsArgs targs \<Rightarrow>
          (let threads_per_warp = vx_num_threads dev;
               start_warp = threads_start_warp targs warp_id;
               iterations = threads_iterations targs warp_id;
               start_task_id = all_tasks_offset targs + start_warp * threads_per_warp + thread_id;
               end_task_id = start_task_id + iterations * threads_per_warp;
               s1 = update_tls warp_id thread_id
                      (\<lambda>l. l\<lparr>local_group_id := 0, threadIdx := Dim3 0 0 0\<rparr>) s
           in dispatch_loop start_task_id end_task_id threads_per_warp warp_id thread_id s1)
      | _ \<Rightarrow> None)"

text \<open>
  \<^verbatim>\<open>process_remaining_threads\<close> (lines 83-90), as run by one lane: \<^verbatim>\<open>task_id\<close> is
  computed and not used, and \<^verbatim>\<open>blockIdx\<close> is not written.
\<close>

definition process_remaining_threads :: "u32 \<Rightarrow> u32 \<Rightarrow> core_state \<Rightarrow> core_state option" where
  "process_remaining_threads warp_id thread_id s =
     (case mscratch s of
        ThreadsArgs targs \<Rightarrow>
          (let task_id = remain_tasks_offset targs + thread_id
           in Some (callback warp_id thread_id s))
      | _ \<Rightarrow> None)"

text \<open>\<^verbatim>\<open>process_threads_stub\<close> (lines 92-101), as run by one warp.\<close>

definition process_threads_stub :: "device \<Rightarrow> u32 \<Rightarrow> core_state \<Rightarrow> core_state option" where
  "process_threads_stub dev warp_id s =
     do {
       s1 \<leftarrow> simt dev warp_id (process_threads dev warp_id) (vx_tmc warp_id (- 1) s);
       Some (vx_tmc_zero warp_id s1)
     }"

text \<open>Line 113 of \<^verbatim>\<open>process_thread_groups\<close>.\<close>

definition groups_iterations :: "wspawn_groups_args_t \<Rightarrow> u32 \<Rightarrow> u32" where
  "groups_iterations targs warp_id =
     warp_batches targs + (if warp_id < remaining_warps targs then 1 else 0)"

text \<open>\<^verbatim>\<open>process_thread_groups\<close> (lines 103-137), as run by one lane.\<close>

definition process_thread_groups :: "device \<Rightarrow> u32 \<Rightarrow> u32 \<Rightarrow> core_state \<Rightarrow>
    core_state option" where
  "process_thread_groups dev warp_id thread_id s =
     (case mscratch s of
        GroupsArgs targs \<Rightarrow>
          (let threads_per_warp = vx_num_threads dev;
               iterations = groups_iterations targs warp_id;
               local_group = warp_id div warps_per_group targs;
               group_warp_id = warp_id - local_group * warps_per_group targs;
               local_task_id = group_warp_id * threads_per_warp + thread_id;
               start_group = group_offset targs + local_group;
               end_group = start_group + iterations * groups_per_core targs;
               s1 = update_tls warp_id thread_id
                      (\<lambda>l. l\<lparr>local_group_id := local_group,
                               threadIdx := decompose (blockDim s) local_task_id\<rparr>) s
           in dispatch_loop start_group end_group (groups_per_core targs) warp_id thread_id s1)
      | _ \<Rightarrow> None)"

text \<open>Lines 141-145 of \<^verbatim>\<open>process_thread_groups_stub\<close>: the mask the warp activates.\<close>

definition groups_threads_mask :: "wspawn_groups_args_t \<Rightarrow> u32 \<Rightarrow> u32" where
  "groups_threads_mask targs warp_id =
     (let group_warp_id = warp_id mod warps_per_group targs
      in if group_warp_id = warps_per_group targs - 1 then remaining_mask targs else - 1)"

text \<open>\<^verbatim>\<open>process_thread_groups_stub\<close> (lines 139-155), as run by one warp.\<close>

definition process_thread_groups_stub :: "device \<Rightarrow> u32 \<Rightarrow> core_state \<Rightarrow>
    core_state option" where
  "process_thread_groups_stub dev warp_id s =
     (case mscratch s of
        GroupsArgs targs \<Rightarrow>
          do {
            s1 \<leftarrow> simt dev warp_id (process_thread_groups dev warp_id)
                    (vx_tmc warp_id (groups_threads_mask targs warp_id) s);
            Some (vx_tmc warp_id (if 0 = warp_id then 1 else 0) s1)
          }
      | _ \<Rightarrow> None)"

text \<open>
  Modelled from the spec: the warp spawn \<^verbatim>\<open>vx_wspawn\<close> of \<^verbatim>\<open>vx_intrinsics.h\<close>, which is
  not part of the sources ("dispatch N-1 sibling warps onto a given entry address and
  return on the calling warp"). The siblings are the warps 1 to N-1 of the core, which
  has \<^verbatim>\<open>vx_num_warps()\<close> warps; the request is logged.
\<close>

definition run_stub :: "device \<Rightarrow> stub \<Rightarrow> u32 \<Rightarrow> core_state \<Rightarrow> core_state option" where
  "run_stub dev f warp_id s =
     (case f of
        ProcessThreadGroupsStub \<Rightarrow> process_thread_groups_stub dev warp_id s
      | ProcessThreadsStub \<Rightarrow> process_threads_stub dev warp_id s
      | NullStub \<Rightarrow> Some s)"

definition vx_wspawn :: "device \<Rightarrow> u32 \<Rightarrow> stub \<Rightarrow> core_state \<Rightarrow> core_state option" where
  "vx_wspawn dev n f s =
     for_each (run_stub dev f)
       (map of_nat [1 ..< min (unat n) (unat (vx_num_warps dev))])
       (s\<lparr>wspawns := wspawns s @ [(n, f)]\<rparr>)"

section \<open>The entry point \<^verbatim>\<open>vx_spawn_threads\<close>\<close>

text \<open>
  The arrays \<^verbatim>\<open>grid_dim\<close> and \<^verbatim>\<open>block_dim\<close>: a null pointer is \<open>None\<close>, any other
  pointer is the memory it points to, read by index. The expression
  \<^verbatim>\<open>(arr && (i < dimension)) ? arr[i] : 1\<close> of lines 167-168:
\<close>

definition axis :: "(nat \<Rightarrow> u32) option \<Rightarrow> u32 \<Rightarrow> nat \<Rightarrow> u32" where
  "axis arr dimension i =
     (case arr of
        Some m \<Rightarrow> if (of_nat i :: u32) < dimension then m i else 1
      | None \<Rightarrow> 1)"

text \<open>
  One round of the loop of lines 166-173 on \<^verbatim>\<open>(num_groups, group_size)\<close> and the
  globals, and the three rounds \<open>i = 0, 1, 2\<close> from \<^verbatim>\<open>num_groups = group_size = 1\<close>.
\<close>

definition normalize_step :: "u32 \<Rightarrow> (nat \<Rightarrow> u32) option \<Rightarrow> (nat \<Rightarrow> u32) option \<Rightarrow>
    u32 \<times> u32 \<times> core_state \<Rightarrow> nat \<Rightarrow> u32 \<times> u32 \<times> core_state" where
  "normalize_step dimension grid_dim block_dim acc i =
     (case acc of (num_groups, group_size, s) \<Rightarrow>
        (let gd = axis grid_dim dimension i;
             bd = axis block_dim dimension i
         in (num_groups * gd, group_size * bd,
             s\<lparr>gridDim := set_m i gd (gridDim s), blockDim := set_m i bd (blockDim s)\<rparr>)))"

definition normalize :: "u32 \<Rightarrow> (nat \<Rightarrow> u32) option \<Rightarrow> (nat \<Rightarrow> u32) option \<Rightarrow>
    core_state \<Rightarrow> u32 \<times> u32 \<times> core_state" where
  "normalize dimension grid_dim block_dim s =
     foldl (normalize_step dimension grid_dim block_dim) (1, 1, s) [0, 1, 2]"

text \<open>Lines 193-199: the warps one block needs and the mask of its last warp.\<close>

definition warps_per_group_of :: "device \<Rightarrow> u32 \<Rightarrow> u32" where
  "warps_per_group_of dev group_size =
     (let threads_per_warp = vx_num_threads dev;
          wpg = group_size div threads_per_warp;
          remaining_threads = group_size mod threads_per_warp
      in if remaining_threads \<noteq> 0 then wpg + 1 else wpg)"

definition remaining_mask_of :: "device \<Rightarrow> u32 \<Rightarrow> u32" where
  "remaining_mask_of dev group_size =
     (let threads_per_warp = vx_num_threads dev;
          remaining_threads = group_size mod threads_per_warp
      in if remaining_threads \<noteq> 0 then push_bit (unat remaining_threads) 1 - 1 else - 1)"

text \<open>Lines 202-205: the active cores of the \<^verbatim>\<open>group_size > 1\<close> path.\<close>

definition groups_active_cores :: "device \<Rightarrow> u32 \<Rightarrow> u32 \<Rightarrow> u32" where
  "groups_active_cores dev num_groups wpg =
     (let warps_per_core = vx_num_warps dev;
          needed_warps = num_groups * wpg;
          needed_cores = (needed_warps + warps_per_core - 1) div warps_per_core
      in min needed_cores (vx_num_cores dev))"

text \<open>Lines 279-280: the active cores of the task path.\<close>

definition tasks_active_cores :: "device \<Rightarrow> u32 \<Rightarrow> u32" where
  "tasks_active_cores dev num_tasks =
     (let threads_per_core = vx_num_warps dev * vx_num_threads dev;
          needed_cores = (num_tasks + threads_per_core - 1) div threads_per_core
      in min needed_cores (vx_num_cores dev))"

text \<open>
  Lines 214-218 (\<^verbatim>\<open>total_groups_per_core\<close>) and 287-291 (\<^verbatim>\<open>tasks_per_core\<close>): the
  number of blocks, or tasks, of one core. Lines 238 (\<^verbatim>\<open>group_offset\<close>) and 310
  (\<^verbatim>\<open>all_tasks_offset_for_core\<close>): the first of them.
\<close>

definition per_core :: "u32 \<Rightarrow> u32 \<Rightarrow> u32 \<Rightarrow> u32" where
  "per_core num active_cores core_id =
     (let total = num div active_cores;
          remaining = num mod active_cores
      in if core_id < remaining then total + 1 else total)"

definition core_offset :: "u32 \<Rightarrow> u32 \<Rightarrow> u32 \<Rightarrow> u32" where
  "core_offset num active_cores core_id =
     core_id * (num div active_cores) + min core_id (num mod active_cores)"

text \<open>
  Lines 222-232: the warps the core activates, the number of batches each of them runs
  and the number of warps that run one batch more.
\<close>

definition groups_schedule :: "device \<Rightarrow> u32 \<Rightarrow> u32 \<Rightarrow> u32 \<times> u32 \<times> u32" where
  "groups_schedule dev wpg total_groups_per_core =
     (let warps_per_core = vx_num_warps dev;
          groups_launchable = warps_per_core div wpg;
          total_warps = total_groups_per_core * wpg
      in if total_warps > warps_per_core then
           (let active_warps = groups_launchable * wpg
            in (active_warps, total_warps div active_warps, total_warps mod active_warps))
         else (total_warps, 1, 0))"

text \<open>Lines 295-306: the same for the full warps of the task path.\<close>

definition tasks_schedule :: "device \<Rightarrow> u32 \<Rightarrow> u32 \<times> u32 \<times> u32" where
  "tasks_schedule dev tasks_per_core =
     (let warps_per_core = vx_num_warps dev;
          total_warps = tasks_per_core div vx_num_threads dev
      in if total_warps > warps_per_core then
           (warps_per_core, total_warps div warps_per_core, total_warps mod warps_per_core)
         else (total_warps, 1, 0))"

text \<open>The descriptor of lines 246-255, for an active core.\<close>

definition groups_args :: "device \<Rightarrow> u32 \<Rightarrow> u32 \<Rightarrow> u32 \<Rightarrow> wspawn_groups_args_t" where
  "groups_args dev core_id num_groups group_size =
     (let wpg = warps_per_group_of dev group_size;
          active_cores = groups_active_cores dev num_groups wpg;
          total_groups_per_core = per_core num_groups active_cores core_id
      in case groups_schedule dev wpg total_groups_per_core of
           (active_warps, batches, remaining) \<Rightarrow>
             \<lparr>group_offset = core_offset num_groups active_cores core_id,
              warp_batches = batches,
              remaining_warps = remaining,
              warps_per_group = wpg,
              groups_per_core = vx_num_warps dev div wpg,
              remaining_mask = remaining_mask_of dev group_size\<rparr>)"

text \<open>The descriptor of lines 315-322, for an active core.\<close>

definition threads_args :: "device \<Rightarrow> u32 \<Rightarrow> u32 \<Rightarrow> wspawn_threads_args_t" where
  "threads_args dev core_id num_tasks =
     (let active_cores = tasks_active_cores dev num_tasks;
          tasks_per_core = per_core num_tasks active_cores core_id;
          remaining_tasks = tasks_per_core mod vx_num_threads dev;
          all_tasks_offset_for_core = core_offset num_tasks active_cores core_id
      in case tasks_schedule dev tasks_per_core of
           (active_warps, batches, remaining) \<Rightarrow>
             \<lparr>all_tasks_offset = all_tasks_offset_for_core,
              remain_tasks_offset = all_tasks_offset_for_core + (tasks_per_core - remaining_tasks),
              warp_batches_t = batches,
              remaining_warps_t = remaining\<rparr>)"

text \<open>The branch \<^verbatim>\<open>group_size > 1\<close> (lines 191-270) up to its \<^verbatim>\<open>return 0\<close> of line 211.\<close>

definition spawn_groups :: "device \<Rightarrow> u32 \<Rightarrow> u32 \<Rightarrow> u32 \<Rightarrow> core_state \<Rightarrow>
    (bool \<times> core_state) option" where
  "spawn_groups dev core_id num_groups group_size s =
     (let wpg = warps_per_group_of dev group_size;
          active_cores = groups_active_cores dev num_groups wpg
      in if core_id \<ge> active_cores then Some (True, s)
         else
           (let total_groups_per_core = per_core num_groups active_cores core_id;
                active_warps = fst (groups_schedule dev wpg total_groups_per_core);
                s1 = csr_write (GroupsArgs (groups_args dev core_id num_groups group_size)) s;
                s2 = s1\<lparr>warps_per_group_global := wpg\<rparr>
            in do {
                 s3 \<leftarrow> vx_wspawn dev active_warps ProcessThreadGroupsStub s2;
                 s4 \<leftarrow> process_thread_groups_stub dev 0 s3;
                 Some (False, s4)
               }))"

text \<open>The branch \<^verbatim>\<open>else\<close> (lines 271-346) up to its \<^verbatim>\<open>return 0\<close> of line 284.\<close>

definition spawn_tasks :: "device \<Rightarrow> u32 \<Rightarrow> u32 \<Rightarrow> core_state \<Rightarrow>
    (bool \<times> core_state) option" where
  "spawn_tasks dev core_id num_groups s =
     (let num_tasks = num_groups;
          s0 = s\<lparr>warps_per_group_global := 0\<rparr>;
          active_cores = tasks_active_cores dev num_tasks
      in if core_id \<ge> active_cores then Some (True, s0)
         else
           (let tasks_per_core = per_core num_tasks active_cores core_id;
                remaining_tasks = tasks_per_core mod vx_num_threads dev;
                active_warps = fst (tasks_schedule dev tasks_per_core);
                s1 = csr_write (ThreadsArgs (threads_args dev core_id num_tasks)) s0
            in do {
                 s2 \<leftarrow> (if active_warps \<ge> 1 then
                          do {
                            a \<leftarrow> vx_wspawn dev active_warps ProcessThreadsStub s1;
                            b \<leftarrow> simt dev 0 (process_threads dev 0) (vx_tmc 0 (- 1) a);
                            Some (vx_tmc_one 0 b)
                          }
                        else Some s1);
                 s3 \<leftarrow> (if remaining_tasks \<noteq> 0 then
                          do {
                            c \<leftarrow> simt dev 0 (process_remaining_threads 0)
                                   (vx_tmc 0 (push_bit (unat remaining_tasks) 1 - 1) s2);
                            Some (vx_tmc_one 0 c)
                          }
                        else Some s2);
                 Some (False, s3)
               }))"

text \<open>
  \<^verbatim>\<open>vx_spawn_threads\<close> (lines 157-356) on the core \<open>core_id\<close>, which runs it on its
  warp 0. The result is the returned \<^verbatim>\<open>int\<close> and the state of the core, or \<open>None\<close>
  when the call does not return.
\<close>

definition vx_spawn_threads :: "device \<Rightarrow> u32 \<Rightarrow> u32 \<Rightarrow> (nat \<Rightarrow> u32) option \<Rightarrow>
    (nat \<Rightarrow> u32) option \<Rightarrow> core_state \<Rightarrow> (int \<times> core_state) option" where
  "vx_spawn_threads dev core_id dimension grid_dim block_dim s =
     (case normalize dimension grid_dim block_dim s of
        (num_groups, group_size, s1) \<Rightarrow>
          (let threads_per_core = vx_num_warps dev * vx_num_threads dev
           in if threads_per_core < group_size then
                Some (- 1, s1\<lparr>console := console s1 @ [(group_size, threads_per_core)]\<rparr>)
              else
                do {
                  (returned, s2) \<leftarrow> (if group_size > 1
                                      then spawn_groups dev core_id num_groups group_size s1
                                      else spawn_tasks dev core_id num_groups s1);
                  if returned then Some (0, s2)
                  else do { s3 \<leftarrow> vx_wspawn dev 1 NullStub s2; Some (0, s3) }
                }))"

text \<open>
  The device of the spec's concrete scenarios (2 cores, 4 warps per core, 4 lanes per
  warp), the same with one core, and a one-core, one-warp device; and a core before its
  first launch: warp 0 runs with its lane 0, every other warp is off, and the
  thread-local variables are zero-initialised.
\<close>

definition dev244 :: device where
  "dev244 = \<lparr>vx_num_cores = 2, vx_num_warps = 4, vx_num_threads = 4\<rparr>"

definition dev144 :: device where
  "dev144 = \<lparr>vx_num_cores = 1, vx_num_warps = 4, vx_num_threads = 4\<rparr>"

definition dev114 :: device where
  "dev114 = \<lparr>vx_num_cores = 1, vx_num_warps = 1, vx_num_threads = 4\<rparr>"

definition init_state :: core_state where
  "init_state =
     \<lparr>gridDim = Dim3 0 0 0, blockDim = Dim3 0 0 0, warps_per_group_global = 0,
      mscratch = NoDescriptor, tmask = (\<lambda>w. if w = 0 then 1 else 0),
      tls = (\<lambda>w t. \<lparr>blockIdx = Dim3 0 0 0, threadIdx = Dim3 0 0 0, local_group_id = 0\<rparr>),
      calls = [], wspawns = [], console = []\<rparr>"

section \<open>Notions used in the statements\<close>

text \<open>
  The branch of line 191 selects the path, and with it the number of active cores
  (lines 205 and 280).
\<close>

definition launch_active_cores :: "device \<Rightarrow> u32 \<Rightarrow> u32 \<Rightarrow> u32" where
  "launch_active_cores dev num_groups group_size =
     (if group_size > 1
      then groups_active_cores dev num_groups (warps_per_group_of dev group_size)
      else tasks_active_cores dev num_groups)"

text \<open>
  The slab of a core: the block (or task) indices from its offset, as many as it is
  given. \<open>nat_offset\<close> and \<open>nat_size\<close> are the same two quantities on natural numbers,
  with \<open>q\<close> and \<open>r\<close> the quotient and the remainder of the partition.
\<close>

definition slab :: "u32 \<Rightarrow> u32 \<Rightarrow> u32 \<Rightarrow> nat set" where
  "slab num active_cores core_id =
     {unat (core_offset num active_cores core_id) ..<
      unat (core_offset num active_cores core_id) + unat (per_core num active_cores core_id)}"

definition nat_offset :: "nat \<Rightarrow> nat \<Rightarrow> nat \<Rightarrow> nat" where
  "nat_offset q r c = c * q + min c r"

definition nat_size :: "nat \<Rightarrow> nat \<Rightarrow> nat \<Rightarrow> nat" where
  "nat_size q r c = q + (if c < r then 1 else 0)"

text \<open>
  The launch is within 32-bit arithmetic when the rounding-up sums of line 204
  (\<^verbatim>\<open>needed_warps + warps_per_core - 1\<close>) and of line 279
  (\<^verbatim>\<open>num_tasks + threads_per_core - 1\<close>) do not wrap around.
\<close>

definition launch_fits :: "device \<Rightarrow> u32 \<Rightarrow> u32 \<Rightarrow> bool" where
  "launch_fits dev num_groups group_size \<longleftrightarrow>
     (if group_size > 1
      then unat num_groups * unat (warps_per_group_of dev group_size) + unat (vx_num_warps dev) \<le> 2 ^ 32
      else unat num_groups + unat (vx_num_warps dev) * unat (vx_num_threads dev) \<le> 2 ^ 32)"

text \<open>
  For an active core of the \<^verbatim>\<open>group_size > 1\<close> path: its number of blocks
  (\<^verbatim>\<open>total_groups_per_core\<close>, lines 214-218) and the number of warps it activates
  (\<^verbatim>\<open>active_warps_this_batch\<close>, the first argument of \<^verbatim>\<open>vx_wspawn\<close> at line 265).
\<close>

definition total_groups_per_core :: "device \<Rightarrow> u32 \<Rightarrow> u32 \<Rightarrow> u32 \<Rightarrow> u32" where
  "total_groups_per_core dev core_id num_groups group_size =
     per_core num_groups
       (groups_active_cores dev num_groups (warps_per_group_of dev group_size)) core_id"

definition groups_active_warps :: "device \<Rightarrow> u32 \<Rightarrow> u32 \<Rightarrow> u32 \<Rightarrow> u32" where
  "groups_active_warps dev core_id num_groups group_size =
     fst (groups_schedule dev (warps_per_group_of dev group_size)
            (total_groups_per_core dev core_id num_groups group_size))"

text \<open>
  The dimensions the loop of lines 166-173 publishes, and their product, which is
  \<^verbatim>\<open>num_groups\<close> for the grid and \<^verbatim>\<open>group_size\<close> for the block (a 32-bit product,
  starting from 1 as the loop does). \<open>array3\<close> is an array of three numbers.
\<close>

definition volume :: "dim3_t \<Rightarrow> u32" where
  "volume d = 1 * dim_x d * dim_y d * dim_z d"

definition launch_dims :: "u32 \<Rightarrow> (nat \<Rightarrow> u32) option \<Rightarrow> dim3_t" where
  "launch_dims dimension arr = Dim3 (axis arr dimension 0) (axis arr dimension 1) (axis arr dimension 2)"

definition array3 :: "u32 \<Rightarrow> u32 \<Rightarrow> u32 \<Rightarrow> nat \<Rightarrow> u32" where
  "array3 a b c i = (if i = 0 then a else if i = 1 then b else c)"

text \<open>
  The loop of \<open>dispatch_loop\<close> run for at most \<open>k\<close> rounds: the loops of the source
  run from \<open>start\<close> to \<open>start + iterations * step\<close>, which they reach after at most
  \<open>iterations\<close> rounds, wrap-around or not.
\<close>

fun loop_n :: "nat \<Rightarrow> u32 \<Rightarrow> u32 \<Rightarrow> u32 \<Rightarrow> u32 \<Rightarrow> u32 \<Rightarrow> core_state \<Rightarrow> core_state" where
  "loop_n 0 i end_i step warp_id thread_id s = s"
| "loop_n (Suc k) i end_i step warp_id thread_id s =
     (if i < end_i then
        loop_n k (i + step) end_i step warp_id thread_id
          (callback warp_id thread_id
             (update_tls warp_id thread_id (\<lambda>l. l\<lparr>blockIdx := decompose (gridDim s) i\<rparr>) s))
      else s)"

text \<open>What the kernel bodies and the mask control leave unchanged.\<close>

definition frame :: "core_state \<Rightarrow> core_state \<Rightarrow> bool" where
  "frame s s' \<longleftrightarrow>
     gridDim s' = gridDim s \<and> blockDim s' = blockDim s \<and> mscratch s' = mscratch s \<and>
     warps_per_group_global s' = warps_per_group_global s \<and> console s' = console s"

text \<open>The descriptor in the scratch CSR is the one the entry point expects.\<close>

definition stub_ready :: "stub \<Rightarrow> scratch \<Rightarrow> bool" where
  "stub_ready f d \<longleftrightarrow>
     (case f of
        ProcessThreadGroupsStub \<Rightarrow> (case d of GroupsArgs _ \<Rightarrow> True | _ \<Rightarrow> False)
      | ProcessThreadsStub \<Rightarrow> (case d of ThreadsArgs _ \<Rightarrow> True | _ \<Rightarrow> False)
      | NullStub \<Rightarrow> True)"

text \<open>
  What the kernel saw in a call: for each invocation the warp, the lane, \<^verbatim>\<open>blockIdx\<close> and
  \<^verbatim>\<open>threadIdx\<close>.
\<close>

definition kernel_log :: "(int \<times> core_state) option \<Rightarrow> (u32 \<times> u32 \<times> dim3_t \<times> dim3_t) list option" where
  "kernel_log res =
     map_option
       (\<lambda>r. map (\<lambda>k. (call_warp k, call_thread k, blockIdx (call_tls k), threadIdx (call_tls k)))
                (calls (snd r)))
       res"

text \<open>The same core with another \<^verbatim>\<open>blockDim\<close>.\<close>

definition with_blockDim :: "dim3_t \<Rightarrow> core_state \<Rightarrow> core_state" where
  "with_blockDim B s = s\<lparr>blockDim := B\<rparr>"

text \<open>The number of kernel invocations a call added to the log of its core.\<close>

definition invocations :: "core_state \<Rightarrow> (int \<times> core_state) option \<Rightarrow> nat" where
  "invocations s res =
     (case res of None \<Rightarrow> 0 | Some r \<Rightarrow> length (calls (snd r)) - length (calls s))"

section \<open>Warp demand of a block\<close>

lemma div_mod_bounds:
  assumes "0 < (b::nat)" and "a mod b \<noteq> 0"
  shows "a div b * b < a" and "a < (a div b + 1) * b"
proof -
  have "a = a div b * b + a mod b" by simp
  then show "a div b * b < a" using assms(2) by linarith
  have "a mod b < b" using assms(1) by simp
  moreover have "(a div b + 1) * b = a div b * b + b" by (simp add: algebra_simps)
  moreover have "a = a div b * b + a mod b" by simp
  ultimately show "a < (a div b + 1) * b" by linarith
qed

lemma ceiling_nat_div:
  assumes "0 < (b::nat)"
  shows "\<lceil>real a / real b\<rceil> = int (if a mod b = 0 then a div b else a div b + 1)"
proof (cases "a mod b = 0")
  case True
  then have "real a = real (a div b) * real b"
    by (metis of_nat_mult mod_0_imp_dvd dvd_div_mult_self)
  then have "real a / real b = real (a div b)" using assms by simp
  then show ?thesis using True by simp
next
  case False
  have b: "0 < real b" using assms by simp
  have "real (a div b * b) < real a" using div_mod_bounds(1) [OF assms False] by (simp only: of_nat_less_iff)
  then have lo: "real (a div b) < real a / real b" using b by (simp add: pos_less_divide_eq)
  have "real a < real ((a div b + 1) * b)" using div_mod_bounds(2) [OF assms False] by (simp only: of_nat_less_iff)
  then have "real a \<le> real (a div b + 1) * real b" by (simp only: of_nat_mult)
  then have hi: "real a / real b \<le> real (a div b + 1)" using b by (simp only: pos_divide_le_eq)
  have "\<lceil>real a / real b\<rceil> = int (a div b + 1)"
    by (rule ceiling_unique) (use lo hi in simp_all)
  then show ?thesis using False by simp
qed

lemma unat_warps_per_group_of:
  assumes "0 < vx_num_threads dev"
  shows "unat (warps_per_group_of dev gs) =
    (if unat gs mod unat (vx_num_threads dev) = 0 then unat gs div unat (vx_num_threads dev)
     else unat gs div unat (vx_num_threads dev) + 1)"
proof -
  let ?t = "vx_num_threads dev"
  have t: "0 < unat ?t" using assms by (simp add: word_less_nat_alt)
  show ?thesis
  proof (cases "gs mod ?t = 0")
    case True
    then have "unat gs mod unat ?t = 0" by (metis unat_mod unat_0)
    then show ?thesis using True
      by (simp add: warps_per_group_of_def Let_def unat_div)
  next
    case False
    then have r: "unat gs mod unat ?t \<noteq> 0" by (metis unat_mod unat_eq_0)
    have "unat gs div unat ?t \<le> unat gs div unat ?t * unat ?t" using t by simp
    then have lt: "unat gs div unat ?t < unat gs" using div_mod_bounds(1) [OF t r] by linarith
    have "unat gs < 2 ^ 32" using unsigned_less [of gs] by simp
    then have "unat (gs div ?t) + unat (1 :: u32) < 2 ^ LENGTH(32)" using lt by (simp add: unat_div)
    then have "unat (gs div ?t + 1) = unat (gs div ?t) + unat (1 :: u32)"
      by (simp only: unat_add_lem [THEN iffD1])
    then show ?thesis using False r
      by (simp add: warps_per_group_of_def Let_def unat_div)
  qed
qed

lemma warps_per_group_fits:
  assumes t: "0 < vx_num_threads dev"
    and le: "unat gs \<le> w * unat (vx_num_threads dev)"
  shows "unat (warps_per_group_of dev gs) \<le> w"
proof -
  let ?t = "unat (vx_num_threads dev)"
  have t': "0 < ?t" using t by (simp add: word_less_nat_alt)
  show ?thesis
  proof (cases "unat gs mod ?t = 0")
    case True
    have "unat gs div ?t \<le> (w * ?t) div ?t" using le by (rule div_le_mono)
    then show ?thesis using True t' by (simp add: unat_warps_per_group_of [OF t])
  next
    case False
    have "unat gs div ?t * ?t < w * ?t" using div_mod_bounds(1) [OF t' False] le by linarith
    then have "unat gs div ?t < w" using t' by simp
    then show ?thesis using False by (simp add: unat_warps_per_group_of [OF t])
  qed
qed

lemma warps_per_group_covers:
  assumes t: "0 < vx_num_threads dev"
  shows "unat gs \<le> unat (warps_per_group_of dev gs) * unat (vx_num_threads dev)"
proof -
  let ?t = "unat (vx_num_threads dev)"
  have t': "0 < ?t" using t by (simp add: word_less_nat_alt)
  show ?thesis
  proof (cases "unat gs mod ?t = 0")
    case True
    then have "unat gs = unat gs div ?t * ?t" by (metis mod_0_imp_dvd dvd_div_mult_self)
    then show ?thesis using True by (simp add: unat_warps_per_group_of [OF t])
  next
    case False
    then show ?thesis using div_mod_bounds(2) [OF t' False]
      by (simp add: unat_warps_per_group_of [OF t])
  qed
qed

text \<open>
  Claim C6. For a launch that passes the capacity check of line 184 with
  \<open>group_size > 1\<close>, the computed \<^verbatim>\<open>warps_per_group\<close> is the ceiling of
  \<open>group_size / threads_per_warp\<close>, and \<open>warps_per_group * threads_per_warp\<close> lies
  between \<open>group_size\<close> and \<open>warps_per_core * threads_per_warp\<close> (products of natural
  numbers, without wrap-around).
\<close>

theorem C6_warps_per_group_bounds:
  assumes "0 < vx_num_threads dev"
    and "1 < group_size"
    and "group_size \<le> vx_num_warps dev * vx_num_threads dev"
  shows "int (unat (warps_per_group_of dev group_size)) =
           \<lceil>real (unat group_size) / real (unat (vx_num_threads dev))\<rceil>
       \<and> unat group_size \<le> unat (warps_per_group_of dev group_size) * unat (vx_num_threads dev)
       \<and> unat (warps_per_group_of dev group_size) * unat (vx_num_threads dev)
           \<le> unat (vx_num_warps dev) * unat (vx_num_threads dev)"
proof -
  let ?t = "unat (vx_num_threads dev)"
  have t': "0 < ?t" using assms(1) by (simp add: word_less_nat_alt)
  have "unat group_size \<le> unat (vx_num_warps dev * vx_num_threads dev)"
    using assms(3) by (simp add: word_le_nat_alt)
  also have "\<dots> \<le> unat (vx_num_warps dev) * ?t"
    by (simp add: unat_word_ariths)
  finally have "unat (warps_per_group_of dev group_size) \<le> unat (vx_num_warps dev)"
    by (rule warps_per_group_fits [OF assms(1)])
  then have "unat (warps_per_group_of dev group_size) * ?t \<le> unat (vx_num_warps dev) * ?t"
    by simp
  moreover have "int (unat (warps_per_group_of dev group_size)) =
           \<lceil>real (unat group_size) / real ?t\<rceil>"
    by (simp only: ceiling_nat_div [OF t'] unat_warps_per_group_of [OF assms(1)])
  ultimately show ?thesis using warps_per_group_covers [OF assms(1)] by blast
qed

theorem C6_warps_per_group_bounds_witness:
  "int (unat (warps_per_group_of dev244 6)) = \<lceil>real (unat (6 :: u32)) / real (unat (vx_num_threads dev244))\<rceil>
   \<and> warps_per_group_of dev244 6 = 2
   \<and> unat (6 :: u32) \<le> unat (warps_per_group_of dev244 6) * unat (vx_num_threads dev244)
   \<and> unat (warps_per_group_of dev244 6) * unat (vx_num_threads dev244)
           \<le> unat (vx_num_warps dev244) * unat (vx_num_threads dev244)"
  using C6_warps_per_group_bounds [of dev244 6]
  by (simp add: dev244_def warps_per_group_of_def)

section \<open>Slabs of the cores\<close>

lemma unat_succ:
  assumes "unat (x :: u32) < unat (y :: u32)"
  shows "unat (x + 1) = unat x + 1"
proof -
  have "unat y < 2 ^ 32" using unsigned_less [of y] by simp
  then have "unat x + unat (1 :: u32) < 2 ^ LENGTH(32)" using assms by simp
  then have "unat (x + 1) = unat x + unat (1 :: u32)"
    by (simp only: unat_add_lem [THEN iffD1])
  then show ?thesis by simp
qed

lemma unat_add_bounded:
  assumes "unat (x :: u32) + unat (y :: u32) \<le> unat (z :: u32)"
  shows "unat (x + y) = unat x + unat y"
proof -
  have "unat z < 2 ^ 32" using unsigned_less [of z] by simp
  then have "unat x + unat y < 2 ^ LENGTH(32)" using assms by simp
  then show ?thesis by (simp only: unat_add_lem [THEN iffD1])
qed

lemma unat_mult_bounded:
  assumes "unat (x :: u32) * unat (y :: u32) \<le> unat (z :: u32)"
  shows "unat (x * y) = unat x * unat y"
proof -
  have "unat z < 2 ^ 32" using unsigned_less [of z] by simp
  then have "unat x * unat y < 2 ^ LENGTH(32)" using assms by simp
  then show ?thesis by (simp only: unat_mult_lem [THEN iffD1])
qed

lemma unat_min: "unat (min (x :: u32) y) = min (unat x) (unat y)"
  by (simp add: min_def word_le_nat_alt)

lemma unat_per_core:
  assumes "c < a"
  shows "unat (per_core n a c) =
         unat n div unat a + (if unat c < unat n mod unat a then 1 else 0)"
proof -
  have a: "0 < unat a" using assms by (simp add: word_less_nat_alt)
  show ?thesis
  proof (cases "c < n mod a")
    case True
    then have r: "unat c < unat n mod unat a" by (simp add: word_less_nat_alt unat_mod)
    then have "unat n mod unat a \<noteq> 0" by simp
    then have "unat n div unat a * unat a < unat n" by (rule div_mod_bounds(1) [OF a])
    moreover have "unat n div unat a \<le> unat n div unat a * unat a" using a by simp
    ultimately have "unat n div unat a < unat n" by linarith
    then have "unat (n div a) < unat n" by (simp only: unat_div)
    then have "unat (n div a + 1) = unat (n div a) + 1" by (rule unat_succ)
    then show ?thesis using True r by (simp add: per_core_def Let_def unat_div)
  next
    case False
    then have "\<not> unat c < unat n mod unat a" by (simp add: word_less_nat_alt unat_mod)
    then show ?thesis using False by (simp add: per_core_def Let_def unat_div)
  qed
qed

lemma unat_core_offset:
  assumes "c < a"
  shows "unat (core_offset n a c) =
         unat c * (unat n div unat a) + min (unat c) (unat n mod unat a)"
proof -
  have ca: "unat c < unat a" using assms by (simp add: word_less_nat_alt)
  have "unat c * (unat n div unat a) \<le> unat a * (unat n div unat a)"
    using ca by (simp add: mult_le_mono1)
  moreover have "unat a * (unat n div unat a) + unat n mod unat a = unat n" by simp
  ultimately have bound: "unat c * (unat n div unat a) + min (unat c) (unat n mod unat a) \<le> unat n"
    by linarith
  then have "unat c * unat (n div a) \<le> unat n" by (simp add: unat_div)
  then have m: "unat (c * (n div a)) = unat c * (unat n div unat a)"
    using unat_mult_bounded [of c "n div a" n] by (simp add: unat_div)
  have "unat (c * (n div a)) + unat (min c (n mod a)) \<le> unat n"
    using bound by (simp add: m unat_min unat_mod)
  then have "unat (c * (n div a) + min c (n mod a)) = unat (c * (n div a)) + unat (min c (n mod a))"
    by (rule unat_add_bounded)
  then show ?thesis by (simp add: core_offset_def m unat_min unat_mod)
qed

lemma nat_offset_Suc: "nat_offset q r (Suc c) = nat_offset q r c + nat_size q r c"
  by (simp add: nat_offset_def nat_size_def min_def)

lemma nat_offset_mono: "c \<le> d \<Longrightarrow> nat_offset q r c \<le> nat_offset q r d"
  by (simp add: nat_offset_def add_mono min.coboundedI1 mult_le_mono1)

lemma nat_slab_union:
  "(\<Union>c\<in>{..<k}. {nat_offset q r c ..< nat_offset q r c + nat_size q r c}) = {0 ..< nat_offset q r k}"
proof (induction k)
  case 0
  then show ?case by (simp add: nat_offset_def)
next
  case (Suc k)
  have "{..<Suc k} = insert k {..<k}" by auto
  then have "(\<Union>c\<in>{..<Suc k}. {nat_offset q r c ..< nat_offset q r c + nat_size q r c}) =
      {nat_offset q r k ..< nat_offset q r (Suc k)} \<union> {0 ..< nat_offset q r k}"
    using Suc.IH by (simp add: nat_offset_Suc)
  also have "\<dots> = {0 ..< nat_offset q r (Suc k)}"
    using nat_offset_mono [of k "Suc k" q r] by auto
  finally show ?case .
qed

lemma nat_offset_total:
  assumes "0 < a"
  shows "nat_offset (n div a) (n mod a) a = n"
proof -
  have "n mod a < a" using assms by simp
  then have "min a (n mod a) = n mod a" by simp
  then show ?thesis by (simp add: nat_offset_def)
qed

lemma slab_nat:
  assumes "c < a"
  shows "slab n a c = {nat_offset (unat n div unat a) (unat n mod unat a) (unat c) ..<
           nat_offset (unat n div unat a) (unat n mod unat a) (unat c)
           + nat_size (unat n div unat a) (unat n mod unat a) (unat c)}"
  by (simp add: slab_def unat_core_offset [OF assms] unat_per_core [OF assms]
      nat_offset_def nat_size_def)

lemma unat_image_below: "unat ` {c :: u32. c < a} = {..<unat a}"
proof
  show "unat ` {c. c < a} \<subseteq> {..<unat a}" by (auto simp: word_less_nat_alt)
  show "{..<unat a} \<subseteq> unat ` {c. c < a}"
  proof
    fix i assume "i \<in> {..<unat a}"
    then have i: "i < unat a" by simp
    then have "i \<le> unat a" by simp
    then have u: "unat (of_nat i :: u32) = i" by (rule le_unat_uoi)
    then have "(of_nat i :: u32) < a" using i by (simp add: word_less_nat_alt)
    then show "i \<in> unat ` {c. c < a}" using u by (metis (mono_tags, lifting) image_eqI mem_Collect_eq)
  qed
qed

lemma slab_union:
  assumes "0 < a"
  shows "(\<Union>c\<in>{c. c < a}. slab n a c) = {0 ..< unat n}"
proof -
  let ?q = "unat n div unat a" and ?r = "unat n mod unat a"
  have a: "0 < unat a" using assms by (simp add: word_less_nat_alt)
  have "(\<Union>c\<in>{c. c < a}. slab n a c) =
        (\<Union>c\<in>{c. c < a}. {nat_offset ?q ?r (unat c) ..< nat_offset ?q ?r (unat c) + nat_size ?q ?r (unat c)})"
    by (simp add: slab_nat)
  also have "\<dots> = (\<Union>i\<in>unat ` {c. c < a}. {nat_offset ?q ?r i ..< nat_offset ?q ?r i + nat_size ?q ?r i})"
    by (simp only: UN_simps(10))
  also have "\<dots> = {0 ..< nat_offset ?q ?r (unat a)}"
    by (simp only: unat_image_below nat_slab_union)
  finally show ?thesis by (simp only: nat_offset_total [OF a])
qed

lemma slab_ascending:
  assumes "c1 < c2" and "c2 < a" and "i \<in> slab n a c1" and "j \<in> slab n a c2"
  shows "i < j"
proof -
  let ?q = "unat n div unat a" and ?r = "unat n mod unat a"
  have c1: "c1 < a" using assms(1,2) by simp
  have "Suc (unat c1) \<le> unat c2" using assms(1) by (simp add: word_less_nat_alt)
  then have "nat_offset ?q ?r (Suc (unat c1)) \<le> nat_offset ?q ?r (unat c2)"
    by (rule nat_offset_mono)
  moreover have "i < nat_offset ?q ?r (Suc (unat c1))"
    using assms(3) by (simp add: slab_nat [OF c1] nat_offset_Suc)
  moreover have "nat_offset ?q ?r (unat c2) \<le> j"
    using assms(4) by (simp add: slab_nat [OF assms(2)])
  ultimately show ?thesis by linarith
qed

lemma per_core_balanced:
  assumes "c1 < a" and "c2 < a"
  shows "unat (per_core n a c1) \<le> unat (per_core n a c2) + 1"
  by (simp add: unat_per_core [OF assms(1)] unat_per_core [OF assms(2)])

lemma word_pos_unat: "0 < (x :: u32) \<longleftrightarrow> 0 < unat x"
  by (simp add: word_less_nat_alt)

lemma unat_round_up_div:
  assumes w: "0 < (w :: u32)" and fit: "unat (x :: u32) + unat w \<le> 2 ^ 32"
  shows "unat ((x + w - 1) div w) = (unat x + unat w - 1) div unat w"
proof -
  have w0: "w \<noteq> 0" using w by auto
  have w1: "unat (w - 1) = unat w - 1" using w0 by (rule unat_minus_one)
  have wp: "0 < unat w" using w by (simp add: word_pos_unat)
  then have "unat x + unat (w - 1) < 2 ^ LENGTH(32)" using fit w1 by simp
  then have "unat (x + (w - 1)) = unat x + unat (w - 1)"
    by (simp only: unat_add_lem [THEN iffD1])
  moreover have "x + w - 1 = x + (w - 1)" by simp
  ultimately have "unat (x + w - 1) = unat x + unat (w - 1)" by (simp only:)
  also have "\<dots> = unat x + unat w - 1" using w1 wp by linarith
  finally show ?thesis by (simp only: unat_div)
qed

lemma round_up_div_pos:
  assumes "0 < (w :: nat)" and "0 < x"
  shows "0 < (x + w - 1) div w"
proof -
  have "w \<le> x + w - 1" using assms by simp
  then show ?thesis using assms(1) by (simp add: div_greater_zero_iff)
qed

lemma warps_per_group_pos:
  assumes "0 < vx_num_threads dev" and "0 < gs"
  shows "0 < unat (warps_per_group_of dev gs)"
proof -
  have "0 < unat gs" using assms(2) by (simp add: word_pos_unat)
  moreover have "unat gs \<le> unat (warps_per_group_of dev gs) * unat (vx_num_threads dev)"
    using assms(1) by (rule warps_per_group_covers)
  ultimately show ?thesis by (cases "unat (warps_per_group_of dev gs)") auto
qed

lemma groups_active_cores_pos:
  assumes dev: "valid_device dev" and n: "0 < n" and g: "0 < wpg"
    and fit: "unat n * unat wpg + unat (vx_num_warps dev) \<le> 2 ^ 32"
  shows "0 < groups_active_cores dev n wpg"
proof -
  let ?w = "vx_num_warps dev"
  have w: "0 < ?w" and c: "0 < vx_num_cores dev" using dev by (simp_all add: valid_device_def)
  have wp: "0 < unat ?w" using w by (simp add: word_pos_unat)
  have "unat n * unat wpg < 2 ^ LENGTH(32)" using fit wp by simp
  then have m: "unat (n * wpg) = unat n * unat wpg" by (simp only: unat_mult_lem [THEN iffD1])
  have "0 < unat n * unat wpg" using n g by (simp add: word_pos_unat)
  then have pos: "0 < unat (n * wpg)" by (simp only: m)
  have "unat (n * wpg) + unat ?w \<le> 2 ^ 32" using fit by (simp only: m)
  then have "unat ((n * wpg + ?w - 1) div ?w) = (unat (n * wpg) + unat ?w - 1) div unat ?w"
    by (rule unat_round_up_div [OF w])
  then have "0 < unat ((n * wpg + ?w - 1) div ?w)"
    using round_up_div_pos [OF wp pos] by simp
  then have "0 < (n * wpg + ?w - 1) div ?w" by (simp add: word_pos_unat)
  then show ?thesis using c by (simp add: groups_active_cores_def Let_def)
qed

lemma unat_threads_per_core:
  assumes "valid_device dev"
  shows "unat (vx_num_warps dev * vx_num_threads dev) = unat (vx_num_warps dev) * unat (vx_num_threads dev)"
    and "0 < vx_num_warps dev * vx_num_threads dev"
proof -
  have "unat (vx_num_warps dev) * unat (vx_num_threads dev) < 2 ^ LENGTH(32)"
    using assms by (simp add: valid_device_def)
  then show eq: "unat (vx_num_warps dev * vx_num_threads dev) = unat (vx_num_warps dev) * unat (vx_num_threads dev)"
    by (simp only: unat_mult_lem [THEN iffD1])
  have "0 < unat (vx_num_warps dev) * unat (vx_num_threads dev)"
    using assms by (simp add: valid_device_def word_pos_unat)
  then show "0 < vx_num_warps dev * vx_num_threads dev" by (simp add: word_pos_unat eq)
qed

lemma tasks_active_cores_pos:
  assumes dev: "valid_device dev" and n: "0 < n"
    and fit: "unat n + unat (vx_num_warps dev) * unat (vx_num_threads dev) \<le> 2 ^ 32"
  shows "0 < tasks_active_cores dev n"
proof -
  let ?w = "vx_num_warps dev * vx_num_threads dev"
  have w: "0 < ?w" using dev by (rule unat_threads_per_core(2))
  have c: "0 < vx_num_cores dev" using dev by (simp add: valid_device_def)
  have wp: "0 < unat ?w" using w by (simp add: word_pos_unat)
  have pos: "0 < unat n" using n by (simp add: word_pos_unat)
  have "unat n + unat ?w \<le> 2 ^ 32" using fit by (simp only: unat_threads_per_core(1) [OF dev])
  then have "unat ((n + ?w - 1) div ?w) = (unat n + unat ?w - 1) div unat ?w"
    by (rule unat_round_up_div [OF w])
  then have "0 < unat ((n + ?w - 1) div ?w)"
    using round_up_div_pos [OF wp pos] by simp
  then have "0 < (n + ?w - 1) div ?w" by (simp add: word_pos_unat)
  then show ?thesis using c by (simp add: tasks_active_cores_def Let_def)
qed

lemma launch_active_cores_pos:
  assumes dev: "valid_device dev" and n: "0 < num_groups"
    and fit: "launch_fits dev num_groups group_size"
  shows "0 < launch_active_cores dev num_groups group_size"
proof (cases "1 < group_size")
  case True
  then have "0 < group_size" by (simp add: word_less_nat_alt)
  moreover have "0 < vx_num_threads dev" using dev by (simp add: valid_device_def)
  ultimately have "0 < warps_per_group_of dev group_size"
    using warps_per_group_pos by (simp add: word_pos_unat)
  then show ?thesis using True fit groups_active_cores_pos [OF dev n]
    by (simp add: launch_active_cores_def launch_fits_def)
next
  case False
  then show ?thesis using fit tasks_active_cores_pos [OF dev n]
    by (simp add: launch_active_cores_def launch_fits_def)
qed

text \<open>
  Claim C3, amended. For a launch that passes the capacity check, with
  \<open>num_groups > 0\<close> and within 32-bit arithmetic, there is an active core; each
  active core \<open>c\<close> has the offset \<open>c * base + min c rem\<close> and the size
  \<open>base + (if c < rem then 1 else 0)\<close>, where \<open>base\<close> and \<open>rem\<close> are the quotient and the
  remainder of \<open>num_groups\<close> by the number of active cores; the union of the slabs of
  the active cores is \<open>{0 ..< num_groups}\<close>; and the slabs ascend with the core
  (every index of a lower core is below every index of a higher core, so they are
  pairwise disjoint).
\<close>

theorem C3_slab_partition:
  assumes "valid_device dev"
    and "group_size \<le> vx_num_warps dev * vx_num_threads dev"
    and "0 < num_groups"
    and "launch_fits dev num_groups group_size"
    and "a = launch_active_cores dev num_groups group_size"
  shows "0 < a
     \<and> (\<forall>c. c < a \<longrightarrow>
           unat (core_offset num_groups a c) =
             unat c * (unat num_groups div unat a) + min (unat c) (unat num_groups mod unat a)
         \<and> unat (per_core num_groups a c) =
             unat num_groups div unat a + (if unat c < unat num_groups mod unat a then 1 else 0))
     \<and> (\<Union>c\<in>{c. c < a}. slab num_groups a c) = {0 ..< unat num_groups}
     \<and> (\<forall>c1 c2. c1 < c2 \<and> c2 < a \<longrightarrow> (\<forall>i\<in>slab num_groups a c1. \<forall>j\<in>slab num_groups a c2. i < j))"
proof -
  have pos: "0 < a" using assms(1,3,4,5) by (simp add: launch_active_cores_pos)
  moreover have "\<forall>c. c < a \<longrightarrow>
           unat (core_offset num_groups a c) =
             unat c * (unat num_groups div unat a) + min (unat c) (unat num_groups mod unat a)
         \<and> unat (per_core num_groups a c) =
             unat num_groups div unat a + (if unat c < unat num_groups mod unat a then 1 else 0)"
    using unat_core_offset unat_per_core by blast
  moreover have "(\<Union>c\<in>{c. c < a}. slab num_groups a c) = {0 ..< unat num_groups}"
    using pos by (rule slab_union)
  moreover have "\<forall>c1 c2. c1 < c2 \<and> c2 < a \<longrightarrow> (\<forall>i\<in>slab num_groups a c1. \<forall>j\<in>slab num_groups a c2. i < j)"
    using slab_ascending by blast
  ultimately show ?thesis by blast
qed

theorem C3_slab_partition_witness:
  "valid_device dev244 \<and> (6 :: u32) \<le> vx_num_warps dev244 * vx_num_threads dev244 \<and> (0 :: u32) < 3
   \<and> launch_fits dev244 3 6 \<and> launch_active_cores dev244 3 6 = 2
   \<and> core_offset 3 2 0 = 0 \<and> per_core 3 2 0 = 2 \<and> core_offset 3 2 1 = 2 \<and> per_core 3 2 1 = 1
   \<and> (\<Union>c\<in>{c. c < 2}. slab 3 2 c) = {0 ..< unat (3 :: u32)}"
proof -
  have d: "valid_device dev244" by (simp add: valid_device_def dev244_def)
  have l: "(6 :: u32) \<le> vx_num_warps dev244 * vx_num_threads dev244" by (simp add: dev244_def)
  have p: "(0 :: u32) < 3" by simp
  have f: "launch_fits dev244 3 6"
    by (simp add: launch_fits_def dev244_def warps_per_group_of_def)
  have a: "2 = launch_active_cores dev244 3 6"
    by (simp add: launch_active_cores_def dev244_def groups_active_cores_def warps_per_group_of_def)
  have s: "core_offset 3 2 0 = 0 \<and> per_core 3 2 0 = 2 \<and> core_offset 3 2 1 = 2 \<and> per_core 3 2 1 = 1"
    by (simp add: core_offset_def per_core_def)
  have "(\<Union>c\<in>{c. c < 2}. slab 3 2 c) = {0 ..< unat (3 :: u32)}"
    using C3_slab_partition [OF d l p f a] by blast
  then show ?thesis using d l p f a [symmetric] s by blast
qed

text \<open>
  Claim C3 as stated fails when the warp demand wraps around: \<open>2^31\<close> blocks of 5
  threads need \<open>2^31 * 2 = 0 (mod 2^32)\<close> warps, no core is active and no block is
  owned.
\<close>

theorem C3_slab_partition_counterexample:
  "valid_device dev244 \<and> (5 :: u32) \<le> vx_num_warps dev244 * vx_num_threads dev244
   \<and> (0 :: u32) < 2147483648
   \<and> launch_active_cores dev244 2147483648 5 = 0
   \<and> (\<Union>c\<in>{c. c < launch_active_cores dev244 2147483648 5}.
         slab 2147483648 (launch_active_cores dev244 2147483648 5) c) \<noteq> {0 ..< unat (2147483648 :: u32)}"
proof -
  have d: "valid_device dev244" by (simp add: valid_device_def dev244_def)
  have l: "(5 :: u32) \<le> vx_num_warps dev244 * vx_num_threads dev244" by (simp add: dev244_def)
  have p: "(0 :: u32) < 2147483648" by simp
  have a: "launch_active_cores dev244 2147483648 5 = 0"
    by (simp add: launch_active_cores_def dev244_def groups_active_cores_def warps_per_group_of_def)
  have "0 \<in> {0 ..< unat (2147483648 :: u32)}" by simp
  then have "{} \<noteq> {0 ..< unat (2147483648 :: u32)}" by blast
  then have ne: "(\<Union>c\<in>{c. c < launch_active_cores dev244 2147483648 5}.
         slab 2147483648 (launch_active_cores dev244 2147483648 5) c) \<noteq> {0 ..< unat (2147483648 :: u32)}"
    by (simp add: a)
  show ?thesis by (intro conjI d l p a ne)
qed

section \<open>Balance\<close>

text \<open>
  Claim C8. Over the active cores of a launch, of either path, the largest number of
  blocks (or tasks) of a core exceeds the smallest by at most 1, when there is an
  active core at all; and any two active cores differ by at most 1.
\<close>

theorem C8_balanced_partition:
  assumes "valid_device dev"
    and "a = launch_active_cores dev num_groups group_size"
  shows "(0 < a \<longrightarrow>
           Max ((\<lambda>c. unat (per_core num_groups a c)) ` {c. c < a})
           - Min ((\<lambda>c. unat (per_core num_groups a c)) ` {c. c < a}) \<le> 1)
       \<and> (\<forall>c1 c2. c1 < a \<and> c2 < a \<longrightarrow>
             unat (per_core num_groups a c1) \<le> unat (per_core num_groups a c2) + 1)"
proof -
  let ?f = "\<lambda>c. unat (per_core num_groups a c)"
  let ?A = "{c. c < a}"
  have m: "Max (?f ` ?A) - Min (?f ` ?A) \<le> 1" if "0 < a"
  proof -
    have fin: "finite (?f ` ?A)" by simp
    have ne: "?f ` ?A \<noteq> {}" using that by auto
    have "Max (?f ` ?A) \<in> ?f ` ?A" using fin ne by (rule Max_in)
    then obtain c1 where c1: "c1 < a" "Max (?f ` ?A) = ?f c1" by auto
    have "Min (?f ` ?A) \<in> ?f ` ?A" using fin ne by (rule Min_in)
    then obtain c2 where c2: "c2 < a" "Min (?f ` ?A) = ?f c2" by auto
    have "?f c1 \<le> ?f c2 + 1" using c1(1) c2(1) by (rule per_core_balanced)
    then show ?thesis using c1(2) c2(2) by simp
  qed
  then show ?thesis using per_core_balanced by blast
qed

theorem C8_balanced_partition_witness:
  "valid_device dev244 \<and> launch_active_cores dev244 3 6 = 2 \<and> (0 :: u32) < 2
   \<and> per_core 3 2 0 = 2 \<and> per_core 3 2 1 = 1
   \<and> Max ((\<lambda>c. unat (per_core 3 2 c)) ` {c. c < 2})
         - Min ((\<lambda>c. unat (per_core 3 2 c)) ` {c. c < 2}) \<le> 1
   \<and> launch_active_cores dev114 5 1 = 1 \<and> per_core 5 1 0 = 5"
proof -
  have d: "valid_device dev244" by (simp add: valid_device_def dev244_def)
  have a: "2 = launch_active_cores dev244 3 6"
    by (simp add: launch_active_cores_def dev244_def groups_active_cores_def warps_per_group_of_def)
  have b: "launch_active_cores dev114 5 1 = 1"
    by (simp add: launch_active_cores_def dev114_def tasks_active_cores_def)
  have c: "(0 :: u32) < 2" by simp
  have p: "per_core 3 2 0 = 2 \<and> per_core 3 2 1 = 1 \<and> per_core 5 1 0 = 5"
    by (simp add: per_core_def)
  show ?thesis using C8_balanced_partition [OF d a] d a [symmetric] b c p by blast
qed

section \<open>Warp batches\<close>

lemma sum_below_word:
  "(\<Sum>w | w < (a :: u32). g (unat w)) = (\<Sum>i<unat a. g i)"
proof -
  have "inj_on unat {w :: u32. w < a}" by (rule inj_onI) (simp add: word_unat_eq_iff)
  then have "sum g (unat ` {w :: u32. w < a}) = sum (g \<circ> unat) {w. w < a}"
    by (rule sum.reindex)
  then show ?thesis by (simp add: unat_image_below comp_def)
qed

lemma sum_iterations_nat:
  "(\<Sum>i<k. b + (if i < r then 1 else 0 :: nat)) = k * b + min k r"
  by (induction k) (auto simp: min_def)

text \<open>What the schedule of lines 222-232 satisfies, on natural numbers.\<close>

lemma groups_schedule_sound:
  assumes g: "0 < unat wpg" and fit: "unat wpg \<le> unat (vx_num_warps dev)"
    and sch: "groups_schedule dev wpg tot = (aw, b, r)"
  shows "unat aw * unat b + unat r = unat (tot * wpg)"
    and "unat r \<le> unat aw"
    and "0 < unat r \<Longrightarrow> unat (b + 1) = unat b + 1"
    and "unat aw \<le> unat (vx_num_warps dev)"
    and "0 < unat b"
proof -
  let ?w = "vx_num_warps dev"
  let ?t = "tot * wpg"
  have all: "unat aw * unat b + unat r = unat ?t \<and> unat r \<le> unat aw
      \<and> (0 < unat r \<longrightarrow> unat (b + 1) = unat b + 1)
      \<and> unat aw \<le> unat ?w \<and> 0 < unat b"
  proof (cases "?w < ?t")
    case True
    then have eq: "aw = (?w div wpg) * wpg" "b = ?t div aw" "r = ?t mod aw"
      using sch by (auto simp add: groups_schedule_def Let_def)
    have "unat ?w div unat wpg * unat wpg \<le> unat ?w" by simp
    then have "unat (?w div wpg) * unat wpg \<le> unat ?w" by (simp only: unat_div)
    then have "unat ((?w div wpg) * wpg) = unat (?w div wpg) * unat wpg"
      by (rule unat_mult_bounded)
    then have aw: "unat aw = unat ?w div unat wpg * unat wpg" by (simp only: eq(1) unat_div)
    have "0 < unat ?w div unat wpg" using g fit by (simp add: div_greater_zero_iff)
    then have awp: "0 < unat aw" using g by (simp add: aw)
    have le: "unat aw \<le> unat ?w" by (simp add: aw)
    have bq: "unat b = unat ?t div unat aw" and rq: "unat r = unat ?t mod unat aw"
      by (simp_all only: eq(2,3) unat_div unat_mod)
    have s: "unat aw * unat b + unat r = unat ?t" by (simp add: bq rq)
    have rl: "unat r \<le> unat aw" using awp by (simp add: rq less_imp_le)
    have bp: "0 < unat b"
    proof -
      have "unat aw \<le> unat ?t" using le True by (simp add: word_less_nat_alt)
      then show ?thesis using awp by (simp add: bq div_greater_zero_iff)
    qed
    have suc: "0 < unat r \<longrightarrow> unat (b + 1) = unat b + 1"
    proof
      assume "0 < unat r"
      then have "unat ?t mod unat aw \<noteq> 0" by (simp add: rq)
      then have "unat ?t div unat aw * unat aw < unat ?t" by (rule div_mod_bounds(1) [OF awp])
      moreover have "unat ?t div unat aw \<le> unat ?t div unat aw * unat aw" using awp by simp
      ultimately have "unat ?t div unat aw < unat ?t" by linarith
      then have "unat b < unat ?t" by (simp only: bq)
      then show "unat (b + 1) = unat b + 1" by (rule unat_succ)
    qed
    show ?thesis using s rl suc le bp by blast
  next
    case False
    then have eq: "aw = ?t" "b = 1" "r = 0"
      using sch by (simp_all add: groups_schedule_def Let_def)
    have "unat ?t \<le> unat ?w" using False by (simp add: word_less_nat_alt)
    then show ?thesis by (simp add: eq)
  qed
  show "unat aw * unat b + unat r = unat (tot * wpg)" using all by blast
  show "unat r \<le> unat aw" using all by blast
  show "0 < unat r \<Longrightarrow> unat (b + 1) = unat b + 1" using all by blast
  show "unat aw \<le> unat (vx_num_warps dev)" using all by blast
  show "0 < unat b" using all by blast
qed

lemma unat_iterations:
  fixes b r w :: u32
  assumes "0 < unat r \<Longrightarrow> unat (b + 1) = unat b + 1"
  shows "unat (b + (if w < r then 1 else 0 :: u32)) = unat b + (if unat w < unat r then 1 else 0)"
proof (cases "w < r")
  case True
  then have "unat w < unat r" by (simp add: word_less_nat_alt)
  then show ?thesis using True assms by simp
next
  case False
  then have "\<not> unat w < unat r" by (simp add: word_less_nat_alt)
  then show ?thesis using False by simp
qed

lemma sum_iterations:
  fixes aw b r :: u32
  assumes suc: "0 < unat r \<Longrightarrow> unat (b + 1) = unat b + 1" and le: "unat r \<le> unat aw"
  shows "(\<Sum>w | w < aw. unat (b + (if w < r then 1 else 0 :: u32))) = unat aw * unat b + unat r"
proof -
  have "(\<Sum>w | w < aw. unat (b + (if w < r then 1 else 0 :: u32))) =
        (\<Sum>w | w < aw. unat b + (if unat w < unat r then 1 else 0))"
    by (simp only: unat_iterations [OF suc])
  also have "\<dots> = (\<Sum>i<unat aw. unat b + (if i < unat r then 1 else 0))"
    by (rule sum_below_word [where a = aw and g = "\<lambda>i. unat b + (if i < unat r then 1 else 0)"])
  also have "\<dots> = unat aw * unat b + min (unat aw) (unat r)" by (rule sum_iterations_nat)
  finally show ?thesis using le by (simp add: min_def)
qed

lemma validated_warps_per_group:
  assumes t: "0 < vx_num_threads dev" and gs: "1 < gs"
    and le: "gs \<le> vx_num_warps dev * vx_num_threads dev"
  shows "0 < unat (warps_per_group_of dev gs)"
    and "unat (warps_per_group_of dev gs) \<le> unat (vx_num_warps dev)"
proof -
  have "0 < gs" using gs by (simp add: word_less_nat_alt)
  then show "0 < unat (warps_per_group_of dev gs)" by (rule warps_per_group_pos [OF t])
  have "unat gs \<le> unat (vx_num_warps dev * vx_num_threads dev)"
    using le by (simp add: word_le_nat_alt)
  also have "\<dots> \<le> unat (vx_num_warps dev) * unat (vx_num_threads dev)"
    by (simp add: unat_word_ariths)
  finally show "unat (warps_per_group_of dev gs) \<le> unat (vx_num_warps dev)"
    by (rule warps_per_group_fits [OF t])
qed

lemma groups_args_fields:
  "warps_per_group (groups_args dev c n gs) = warps_per_group_of dev gs"
  "remaining_mask (groups_args dev c n gs) = remaining_mask_of dev gs"
  "groups_per_core (groups_args dev c n gs) = vx_num_warps dev div warps_per_group_of dev gs"
  "group_offset (groups_args dev c n gs) =
     core_offset n (groups_active_cores dev n (warps_per_group_of dev gs)) c"
  "warp_batches (groups_args dev c n gs) =
     fst (snd (groups_schedule dev (warps_per_group_of dev gs) (total_groups_per_core dev c n gs)))"
  "remaining_warps (groups_args dev c n gs) =
     snd (snd (groups_schedule dev (warps_per_group_of dev gs) (total_groups_per_core dev c n gs)))"
  by (simp_all add: groups_args_def total_groups_per_core_def Let_def split: prod.splits)

lemma groups_iterations_sum:
  assumes "0 < vx_num_threads dev"
    and "1 < group_size"
    and "group_size \<le> vx_num_warps dev * vx_num_threads dev"
  shows "(\<Sum>w | w < groups_active_warps dev core_id num_groups group_size.
            unat (groups_iterations (groups_args dev core_id num_groups group_size) w)) =
         unat (total_groups_per_core dev core_id num_groups group_size
                 * warps_per_group_of dev group_size)"
    and "unat (groups_iterations (groups_args dev core_id num_groups group_size) w1)
           \<le> unat (groups_iterations (groups_args dev core_id num_groups group_size) w2) + 1"
proof -
  let ?wpg = "warps_per_group_of dev group_size"
  let ?tot = "total_groups_per_core dev core_id num_groups group_size"
  let ?targs = "groups_args dev core_id num_groups group_size"
  obtain aw b r where sch: "groups_schedule dev ?wpg ?tot = (aw, b, r)"
    by (cases "groups_schedule dev ?wpg ?tot") auto
  have aw: "groups_active_warps dev core_id num_groups group_size = aw"
    using sch by (simp add: groups_active_warps_def)
  have it: "groups_iterations ?targs w = b + (if w < r then 1 else 0)" for w
    using sch by (simp add: groups_iterations_def groups_args_fields)
  note v = validated_warps_per_group [OF assms]
  note s = groups_schedule_sound [OF v sch]
  show "(\<Sum>w | w < groups_active_warps dev core_id num_groups group_size.
            unat (groups_iterations ?targs w)) = unat (?tot * ?wpg)"
    using sum_iterations [OF s(3) s(2)] s(1) by (simp add: it aw)
  show "unat (groups_iterations ?targs w1) \<le> unat (groups_iterations ?targs w2) + 1"
    by (simp add: it unat_iterations [OF s(3)])
qed

text \<open>
  Claim C4, amended. For a launch with \<open>group_size > 1\<close> that passes the capacity
  check and has \<open>num_groups * warps_per_group > num_cores * warps_per_core\<close>, on each
  active core the iterations of line 113, summed over the warps the core activates,
  equal \<^verbatim>\<open>total_warps_for_this_core\<close> of line 223, the 32-bit product
  \<open>groups_per_core * warps_per_group\<close> (so each block is run by \<open>warps_per_group\<close>
  warps, and the sum is the product of natural numbers when that fits 32 bits); and
  the iteration counts of any two warps differ by at most 1.
\<close>

theorem C4_batch_iterations:
  assumes "0 < vx_num_threads dev"
    and "1 < group_size"
    and "group_size \<le> vx_num_warps dev * vx_num_threads dev"
    and "unat (vx_num_cores dev) * unat (vx_num_warps dev)
           < unat num_groups * unat (warps_per_group_of dev group_size)"
    and "core_id < groups_active_cores dev num_groups (warps_per_group_of dev group_size)"
    and "targs = groups_args dev core_id num_groups group_size"
    and "aw = groups_active_warps dev core_id num_groups group_size"
  shows "(\<Sum>w | w < aw. unat (groups_iterations targs w)) =
           unat (total_groups_per_core dev core_id num_groups group_size
                   * warps_per_group_of dev group_size)
       \<and> (unat (total_groups_per_core dev core_id num_groups group_size)
             * unat (warps_per_group_of dev group_size) < 2 ^ 32 \<longrightarrow>
           (\<Sum>w | w < aw. unat (groups_iterations targs w)) =
             unat (total_groups_per_core dev core_id num_groups group_size)
               * unat (warps_per_group_of dev group_size))
       \<and> (\<forall>w1 w2. unat (groups_iterations targs w1) \<le> unat (groups_iterations targs w2) + 1)"
proof -
  let ?wpg = "warps_per_group_of dev group_size"
  let ?tot = "total_groups_per_core dev core_id num_groups group_size"
  have sum: "(\<Sum>w | w < aw. unat (groups_iterations targs w)) = unat (?tot * ?wpg)"
    unfolding assms(6,7) by (rule groups_iterations_sum(1) [OF assms(1,2,3)])
  have "unat ?tot * unat ?wpg < 2 ^ 32 \<longrightarrow> unat (?tot * ?wpg) = unat ?tot * unat ?wpg"
    using unat_mult_lem [of ?tot ?wpg] by simp
  moreover have "unat (groups_iterations targs w1) \<le> unat (groups_iterations targs w2) + 1" for w1 w2
    unfolding assms(6) by (rule groups_iterations_sum(2) [OF assms(1,2,3)])
  ultimately show ?thesis using sum by simp
qed

text \<open>Unfolding the partitioner on concrete launches.\<close>

lemmas launch_eval =
  groups_args_def threads_args_def groups_schedule_def tasks_schedule_def
  warps_per_group_of_def remaining_mask_of_def groups_active_cores_def tasks_active_cores_def
  per_core_def core_offset_def total_groups_per_core_def groups_active_warps_def
  launch_active_cores_def launch_fits_def groups_iterations_def threads_iterations_def
  threads_start_warp_def groups_threads_mask_def valid_device_def
  dev244_def dev144_def dev114_def Let_def

theorem C4_batch_iterations_witness:
  "(0 :: u32) < vx_num_threads dev144 \<and> (1 :: u32) < 6
   \<and> (6 :: u32) \<le> vx_num_warps dev144 * vx_num_threads dev144
   \<and> unat (vx_num_cores dev144) * unat (vx_num_warps dev144)
         < unat (3 :: u32) * unat (warps_per_group_of dev144 6)
   \<and> (0 :: u32) < groups_active_cores dev144 3 (warps_per_group_of dev144 6)
   \<and> groups_active_warps dev144 0 3 6 = 4
   \<and> total_groups_per_core dev144 0 3 6 = 3 \<and> warps_per_group_of dev144 6 = 2
   \<and> (\<Sum>w | w < 4. unat (groups_iterations (groups_args dev144 0 3 6) w)) = 6"
proof -
  have h1: "(0 :: u32) < vx_num_threads dev144" by (simp add: launch_eval)
  have h2: "(1 :: u32) < 6" by simp
  have h3: "(6 :: u32) \<le> vx_num_warps dev144 * vx_num_threads dev144" by (simp add: launch_eval)
  have h4: "unat (vx_num_cores dev144) * unat (vx_num_warps dev144)
         < unat (3 :: u32) * unat (warps_per_group_of dev144 6)" by (simp add: launch_eval)
  have h5: "(0 :: u32) < groups_active_cores dev144 3 (warps_per_group_of dev144 6)"
    by (simp add: launch_eval)
  have h7: "4 = groups_active_warps dev144 0 3 6" by (simp add: launch_eval)
  have v: "total_groups_per_core dev144 0 3 6 = 3 \<and> warps_per_group_of dev144 6 = 2"
    by (simp add: launch_eval)
  have "(\<Sum>w | w < 4. unat (groups_iterations (groups_args dev144 0 3 6) w)) = 6"
    using C4_batch_iterations [OF h1 h2 h3 h4 h5 refl h7] by (simp add: v)
  then show ?thesis using h1 h2 h3 h4 h5 h7 [symmetric] v by blast
qed

text \<open>
  Claim C4 as stated fails when a block needs more than one warp: 3 blocks of 6
  threads on one core of 4 warps of 4 lanes run on 4 warps for 2, 2, 1 and 1
  iterations, 6 in total, while the core has 3 blocks.
\<close>

theorem C4_batch_iterations_counterexample:
  "(1 :: u32) < 6 \<and> (6 :: u32) \<le> vx_num_warps dev144 * vx_num_threads dev144
   \<and> unat (vx_num_cores dev144) * unat (vx_num_warps dev144)
         < unat (3 :: u32) * unat (warps_per_group_of dev144 6)
   \<and> (0 :: u32) < groups_active_cores dev144 3 (warps_per_group_of dev144 6)
   \<and> groups_active_warps dev144 0 3 6 = 4
   \<and> groups_iterations (groups_args dev144 0 3 6) 0 = 2
   \<and> groups_iterations (groups_args dev144 0 3 6) 1 = 2
   \<and> groups_iterations (groups_args dev144 0 3 6) 2 = 1
   \<and> groups_iterations (groups_args dev144 0 3 6) 3 = 1
   \<and> total_groups_per_core dev144 0 3 6 = 3
   \<and> (\<Sum>w | w < groups_active_warps dev144 0 3 6.
          unat (groups_iterations (groups_args dev144 0 3 6) w))
       \<noteq> unat (total_groups_per_core dev144 0 3 6)"
proof -
  have h1: "(0 :: u32) < vx_num_threads dev144" by (simp add: launch_eval)
  have h2: "(1 :: u32) < 6" by simp
  have h3: "(6 :: u32) \<le> vx_num_warps dev144 * vx_num_threads dev144" by (simp add: launch_eval)
  have h4: "unat (vx_num_cores dev144) * unat (vx_num_warps dev144)
         < unat (3 :: u32) * unat (warps_per_group_of dev144 6)" by (simp add: launch_eval)
  have h5: "(0 :: u32) < groups_active_cores dev144 3 (warps_per_group_of dev144 6)"
    by (simp add: launch_eval)
  have h7: "groups_active_warps dev144 0 3 6 = 4" by (simp add: launch_eval)
  have i0: "groups_iterations (groups_args dev144 0 3 6) 0 = 2" by (simp add: launch_eval)
  have i1: "groups_iterations (groups_args dev144 0 3 6) 1 = 2" by (simp add: launch_eval)
  have i2: "groups_iterations (groups_args dev144 0 3 6) 2 = 1" by (simp add: launch_eval)
  have i3: "groups_iterations (groups_args dev144 0 3 6) 3 = 1" by (simp add: launch_eval)
  have t: "total_groups_per_core dev144 0 3 6 = 3" by (simp add: launch_eval)
  have w: "warps_per_group_of dev144 6 = 2" by (simp add: launch_eval)
  have "(\<Sum>w | w < groups_active_warps dev144 0 3 6.
          unat (groups_iterations (groups_args dev144 0 3 6) w)) = 6"
    using groups_iterations_sum(1) [OF h1 h2 h3, of 0 3] by (simp add: t w)
  then have ne: "(\<Sum>w | w < groups_active_warps dev144 0 3 6.
          unat (groups_iterations (groups_args dev144 0 3 6) w))
       \<noteq> unat (total_groups_per_core dev144 0 3 6)" by (simp add: t)
  show ?thesis by (intro conjI h2 h3 h4 h5 h7 i0 i1 i2 i3 t ne)
qed

section \<open>Lane masks\<close>

lemma filter_upt_less:
  "r \<le> n \<Longrightarrow> filter (\<lambda>i. i < r) [0 ..< n] = [0 ..< r]"
proof (induction n)
  case 0
  then show ?case by simp
next
  case (Suc n)
  show ?case
  proof (cases "r = Suc n")
    case True
    then show ?thesis by simp
  next
    case False
    then have "r \<le> n" using Suc.prems by simp
    then show ?thesis using Suc.IH by simp
  qed
qed

lemma unat_lane:
  assumes "i < unat (t :: u32)"
  shows "unat (of_nat i :: u32) = i"
  using assms by (simp add: le_unat_uoi [of i t])

lemma lanes_of_mask_all:
  assumes "vx_num_threads dev \<le> 32"
  shows "lanes_of_mask dev (- 1) = map of_nat [0 ..< unat (vx_num_threads dev)]"
proof -
  have n: "unat (vx_num_threads dev) \<le> 32" using assms by (simp add: word_le_nat_alt)
  have "bit (- 1 :: u32) (unat (of_nat i :: u32))" if "i < unat (vx_num_threads dev)" for i
    using that n by (simp add: unat_lane [OF that])
  then show ?thesis by (simp add: lanes_of_mask_def filter_map comp_def cong: filter_cong)
qed

lemma lanes_of_mask_low:
  assumes "vx_num_threads dev \<le> 32" and "r \<le> unat (vx_num_threads dev)"
  shows "lanes_of_mask dev (push_bit r 1 - 1) = map of_nat [0 ..< r]"
proof -
  have n: "unat (vx_num_threads dev) \<le> 32" using assms(1) by (simp add: word_le_nat_alt)
  have m: "push_bit r 1 - 1 = (mask r :: u32)" by (simp add: mask_eq_exp_minus_1 push_bit_of_1)
  have "bit (mask r :: u32) (unat (of_nat i :: u32)) \<longleftrightarrow> i < r"
    if "i \<in> set [0 ..< unat (vx_num_threads dev)]" for i
  proof -
    have i: "i < unat (vx_num_threads dev)" using that by simp
    then show ?thesis using n by (simp add: unat_lane [OF i] bit_mask_iff)
  qed
  then have "filter ((\<lambda>t :: u32. bit (mask r :: u32) (unat t)) \<circ> of_nat) [0 ..< unat (vx_num_threads dev)]
        = filter (\<lambda>i. i < r) [0 ..< unat (vx_num_threads dev)]"
    by (intro filter_cong refl) (simp only: o_apply)
  then have "lanes_of_mask dev (mask r) = map of_nat [0 ..< r]"
    by (simp only: lanes_of_mask_def filter_map filter_upt_less [OF assms(2)])
  then show ?thesis by (simp only: m)
qed

text \<open>
  Claim C5. In the \<^verbatim>\<open>group_size > 1\<close> path, with \<open>r = group_size mod threads_per_warp\<close>:
  when \<open>r \<noteq> 0\<close>, a warp whose position in its block (\<^verbatim>\<open>warp_id % warps_per_group\<close>)
  is \<open>warps_per_group - 1\<close> sets the mask \<open>(1 << r) - 1\<close> and runs with exactly the
  lanes \<open>0 .. r - 1\<close>; every other warp, and every warp when \<open>r = 0\<close>, runs with all
  \<open>threads_per_warp\<close> lanes; and the stub runs \<^verbatim>\<open>process_thread_groups\<close> on exactly
  these lanes, under this mask.
\<close>

theorem C5_tail_lane_mask:
  assumes "valid_device dev"
    and "1 < group_size"
    and "group_size \<le> vx_num_warps dev * vx_num_threads dev"
    and "targs = groups_args dev core_id num_groups group_size"
    and "r = group_size mod vx_num_threads dev"
    and "m = groups_threads_mask targs warp_id"
  shows "(r \<noteq> 0 \<and> warp_id mod warps_per_group targs = warps_per_group targs - 1 \<longrightarrow>
            m = push_bit (unat r) 1 - 1
          \<and> active_lanes dev warp_id (vx_tmc warp_id m s) = map of_nat [0 ..< unat r])
       \<and> (r = 0 \<or> warp_id mod warps_per_group targs \<noteq> warps_per_group targs - 1 \<longrightarrow>
            active_lanes dev warp_id (vx_tmc warp_id m s)
              = map of_nat [0 ..< unat (vx_num_threads dev)])
       \<and> process_thread_groups_stub dev warp_id (csr_write (GroupsArgs targs) s) =
           do {
             s1 \<leftarrow> for_each (process_thread_groups dev warp_id)
                     (active_lanes dev warp_id (vx_tmc warp_id m s))
                     (vx_tmc warp_id m (csr_write (GroupsArgs targs) s));
             Some (vx_tmc warp_id (if 0 = warp_id then 1 else 0) s1)
           }"
proof -
  have t32: "vx_num_threads dev \<le> 32" and tp: "0 < vx_num_threads dev"
    using assms(1) by (simp_all add: valid_device_def)
  have tpn: "0 < unat (vx_num_threads dev)" using tp by (simp add: word_pos_unat)
  have "unat r = unat group_size mod unat (vx_num_threads dev)" by (simp add: assms(5) unat_mod)
  then have rl: "unat r \<le> unat (vx_num_threads dev)" using tpn by (simp add: less_imp_le)
  have al: "active_lanes dev warp_id (vx_tmc warp_id m' s) = lanes_of_mask dev m'" for m'
    by (simp add: active_lanes_def vx_tmc_def)
  have rm: "remaining_mask targs = (if r \<noteq> 0 then push_bit (unat r) 1 - 1 else - 1)"
    by (simp add: assms(4,5) groups_args_fields remaining_mask_of_def Let_def)
  have m: "m = (if warp_id mod warps_per_group targs = warps_per_group targs - 1
                then (if r \<noteq> 0 then push_bit (unat r) 1 - 1 else - 1) else - 1)"
    by (simp add: assms(6) groups_threads_mask_def Let_def rm)
  have 1: "r \<noteq> 0 \<and> warp_id mod warps_per_group targs = warps_per_group targs - 1 \<longrightarrow>
            m = push_bit (unat r) 1 - 1
          \<and> active_lanes dev warp_id (vx_tmc warp_id m s) = map of_nat [0 ..< unat r]"
    using lanes_of_mask_low [OF t32 rl] by (simp add: al m)
  have 2: "r = 0 \<or> warp_id mod warps_per_group targs \<noteq> warps_per_group targs - 1 \<longrightarrow>
            active_lanes dev warp_id (vx_tmc warp_id m s)
              = map of_nat [0 ..< unat (vx_num_threads dev)]"
    using lanes_of_mask_all [OF t32] by (auto simp add: al m)
  have 3: "process_thread_groups_stub dev warp_id (csr_write (GroupsArgs targs) s) =
           do {
             s1 \<leftarrow> for_each (process_thread_groups dev warp_id)
                     (active_lanes dev warp_id (vx_tmc warp_id m s))
                     (vx_tmc warp_id m (csr_write (GroupsArgs targs) s));
             Some (vx_tmc warp_id (if 0 = warp_id then 1 else 0) s1)
           }"
    by (simp add: process_thread_groups_stub_def simt_def csr_write_def assms(6)
        active_lanes_def vx_tmc_def)
  show ?thesis using 1 2 3 by blast
qed

theorem C5_tail_lane_mask_witness:
  "valid_device dev244 \<and> (1 :: u32) < 6 \<and> (6 :: u32) \<le> vx_num_warps dev244 * vx_num_threads dev244
   \<and> (6 :: u32) mod vx_num_threads dev244 = 2
   \<and> warps_per_group (groups_args dev244 0 3 6) = 2
   \<and> groups_threads_mask (groups_args dev244 0 3 6) 1 = 3
   \<and> active_lanes dev244 1 (vx_tmc 1 3 init_state) = [0, 1]
   \<and> groups_threads_mask (groups_args dev244 0 3 6) 0 = - 1
   \<and> active_lanes dev244 0 (vx_tmc 0 (- 1) init_state) = [0, 1, 2, 3]"
proof -
  have d: "valid_device dev244" by (simp add: launch_eval)
  have g: "(1 :: u32) < 6" by simp
  have l: "(6 :: u32) \<le> vx_num_warps dev244 * vx_num_threads dev244" by (simp add: launch_eval)
  have r: "2 = (6 :: u32) mod vx_num_threads dev244" by (simp add: launch_eval)
  have w: "warps_per_group (groups_args dev244 0 3 6) = 2" by (simp add: launch_eval)
  have m1: "3 = groups_threads_mask (groups_args dev244 0 3 6) 1" by (simp add: launch_eval)
  have m0: "- 1 = groups_threads_mask (groups_args dev244 0 3 6) 0" by (simp add: launch_eval)
  have n: "vx_num_threads dev244 = 4" by (simp add: launch_eval)
  have "active_lanes dev244 1 (vx_tmc 1 3 init_state) = [0, 1]"
    using C5_tail_lane_mask [OF d g l refl r m1, of init_state] by (simp add: w upt_rec)
  moreover have "active_lanes dev244 0 (vx_tmc 0 (- 1) init_state) = [0, 1, 2, 3]"
    using C5_tail_lane_mask [OF d g l refl r m0, of init_state] by (simp add: w n upt_rec)
  ultimately show ?thesis using d g l r [symmetric] w m1 [symmetric] m0 [symmetric] by blast
qed

section \<open>Every call returns\<close>

lemma normalize_eq:
  "normalize dimension grid_dim block_dim s =
     (volume (launch_dims dimension grid_dim), volume (launch_dims dimension block_dim),
      s\<lparr>gridDim := launch_dims dimension grid_dim, blockDim := launch_dims dimension block_dim\<rparr>)"
proof -
  obtain a b c where g: "gridDim s = Dim3 a b c" by (cases "gridDim s") auto
  obtain a' b' c' where b: "blockDim s = Dim3 a' b' c'" by (cases "blockDim s") auto
  show ?thesis
    by (simp add: normalize_def normalize_step_def volume_def launch_dims_def g b Let_def)
qed

lemma dispatch_loop_n:
  "dispatch_loop i (i + of_nat k * step) step w t s =
     Some (loop_n k i (i + of_nat k * step) step w t s)"
proof (induction k arbitrary: i s)
  case 0
  show ?case by (subst dispatch_loop.simps) simp
next
  case (Suc k)
  have e: "i + of_nat (Suc k) * step = (i + step) + of_nat k * step" by (simp add: algebra_simps)
  show ?case
    apply (subst dispatch_loop.simps)
    apply (simp only: e loop_n.simps Suc.IH)
    apply simp
    done
qed

lemma dispatch_loop_iterations:
  "dispatch_loop i (i + n * step) step w t s =
     Some (loop_n (unat n) i (i + n * step) step w t s)"
  using dispatch_loop_n [of i "unat n" step w t s] by simp

lemma frame_refl: "frame s s"
  by (simp add: frame_def)

lemma frame_trans: "frame s s' \<Longrightarrow> frame s' s'' \<Longrightarrow> frame s s''"
  by (simp add: frame_def)

lemma frame_callback: "frame s (callback w t s)"
  by (simp add: frame_def callback_def)

lemma frame_update_tls: "frame s (update_tls w t f s)"
  by (simp add: frame_def update_tls_def)

lemma frame_vx_tmc: "frame s (vx_tmc w m s)"
  by (simp add: frame_def vx_tmc_def)

lemma frame_loop_n: "frame s (loop_n k i e step w t s)"
proof (induction k arbitrary: i s)
  case 0
  show ?case by (simp add: frame_refl)
next
  case (Suc k)
  have "frame s (callback w t (update_tls w t (\<lambda>l. l\<lparr>blockIdx := decompose (gridDim s) i\<rparr>) s))"
    by (simp add: frame_def callback_def update_tls_def)
  then show ?case using Suc.IH frame_trans by (auto simp: frame_refl)
qed

lemma process_threads_returns:
  assumes "mscratch s = ThreadsArgs targs"
  shows "\<exists>s'. process_threads dev w t s = Some s' \<and> frame s s'"
proof -
  have "frame s (update_tls w t (\<lambda>l. l\<lparr>local_group_id := 0, threadIdx := Dim3 0 0 0\<rparr>) s)"
    by (rule frame_update_tls)
  then show ?thesis using assms
    by (auto simp: process_threads_def Let_def dispatch_loop_iterations
        intro: frame_trans frame_loop_n)
qed

lemma process_thread_groups_returns:
  assumes "mscratch s = GroupsArgs targs"
  shows "\<exists>s'. process_thread_groups dev w t s = Some s' \<and> frame s s'"
proof -
  have "frame s (update_tls w t (\<lambda>l. l\<lparr>local_group_id := w div warps_per_group targs,
      threadIdx := decompose (blockDim s)
        ((w - w div warps_per_group targs * warps_per_group targs) * vx_num_threads dev + t)\<rparr>) s)"
    by (rule frame_update_tls)
  then show ?thesis using assms
    by (auto simp: process_thread_groups_def Let_def dispatch_loop_iterations
        intro: frame_trans frame_loop_n)
qed

lemma process_remaining_threads_returns:
  assumes "mscratch s = ThreadsArgs targs"
  shows "\<exists>s'. process_remaining_threads w t s = Some s' \<and> frame s s'"
  using assms by (simp add: process_remaining_threads_def Let_def frame_callback)

lemma for_each_returns:
  assumes "\<And>a s. I s \<Longrightarrow> \<exists>s'. f a s = Some s' \<and> frame s s' \<and> I s'"
    and "I s"
  shows "\<exists>s'. for_each f xs s = Some s' \<and> frame s s' \<and> I s'"
  using assms(2)
proof (induction xs arbitrary: s)
  case Nil
  then show ?case by (simp add: frame_refl)
next
  case (Cons a xs)
  obtain s1 where 1: "f a s = Some s1" "frame s s1" "I s1" using assms(1) Cons.prems by blast
  obtain s2 where 2: "for_each f xs s1 = Some s2" "frame s1 s2" "I s2" using Cons.IH 1(3) by blast
  show ?case using 1 2 frame_trans by auto
qed

lemma simt_returns:
  assumes "\<And>t s. mscratch s = d \<Longrightarrow> \<exists>s'. f t s = Some s' \<and> frame s s'"
    and "mscratch s = d"
  shows "\<exists>s'. simt dev w f s = Some s' \<and> frame s s'"
proof -
  have "\<exists>s'. f t s = Some s' \<and> frame s s' \<and> mscratch s' = d" if "mscratch s = d" for t s
    using assms(1) [OF that] that by (auto simp: frame_def)
  then have "\<exists>s'. for_each f (active_lanes dev w s) s = Some s' \<and> frame s s' \<and> mscratch s' = d"
    using assms(2) by (rule for_each_returns [where I = "\<lambda>s. mscratch s = d"])
  then show ?thesis by (auto simp: simt_def)
qed

lemma process_threads_stub_returns:
  assumes "mscratch s = ThreadsArgs targs"
  shows "\<exists>s'. process_threads_stub dev w s = Some s' \<and> frame s s'"
proof -
  let ?s1 = "vx_tmc w (- 1) s"
  have m: "mscratch ?s1 = ThreadsArgs targs" using assms by (simp add: vx_tmc_def)
  have step: "\<exists>s'. process_threads dev w t s = Some s' \<and> frame s s'"
    if "mscratch s = ThreadsArgs targs" for t s
    using that by (rule process_threads_returns)
  obtain s2 where 2: "simt dev w (process_threads dev w) ?s1 = Some s2" "frame ?s1 s2"
    using simt_returns [where d = "ThreadsArgs targs" and f = "process_threads dev w"
        and dev = dev and w = w, OF step m] by blast
  have "frame s (vx_tmc_zero w s2)"
    using frame_vx_tmc [of s w "- 1"] 2(2) frame_vx_tmc [of s2 w 0]
    by (auto simp: vx_tmc_zero_def intro: frame_trans)
  then show ?thesis using 2(1) by (simp add: process_threads_stub_def)
qed

lemma process_thread_groups_stub_returns:
  assumes "mscratch s = GroupsArgs targs"
  shows "\<exists>s'. process_thread_groups_stub dev w s = Some s' \<and> frame s s'"
proof -
  let ?s1 = "vx_tmc w (groups_threads_mask targs w) s"
  have m: "mscratch ?s1 = GroupsArgs targs" using assms by (simp add: vx_tmc_def)
  have step: "\<exists>s'. process_thread_groups dev w t s = Some s' \<and> frame s s'"
    if "mscratch s = GroupsArgs targs" for t s
    using that by (rule process_thread_groups_returns)
  obtain s2 where 2: "simt dev w (process_thread_groups dev w) ?s1 = Some s2" "frame ?s1 s2"
    using simt_returns [where d = "GroupsArgs targs" and f = "process_thread_groups dev w"
        and dev = dev and w = w, OF step m] by blast
  have "frame s (vx_tmc w (if 0 = w then 1 else 0) s2)"
    using frame_vx_tmc [of s w "groups_threads_mask targs w"] 2(2)
      frame_vx_tmc [of s2 w "if 0 = w then 1 else 0"]
    by (auto intro: frame_trans)
  then show ?thesis using 2(1) assms by (simp add: process_thread_groups_stub_def)
qed

lemma run_stub_returns:
  assumes "stub_ready f (mscratch s)"
  shows "\<exists>s'. run_stub dev f w s = Some s' \<and> frame s s'"
proof (cases f)
  case ProcessThreadGroupsStub
  then obtain targs where "mscratch s = GroupsArgs targs"
    using assms by (auto simp: stub_ready_def split: scratch.splits)
  then show ?thesis using ProcessThreadGroupsStub process_thread_groups_stub_returns
    by (simp add: run_stub_def)
next
  case ProcessThreadsStub
  then obtain targs where "mscratch s = ThreadsArgs targs"
    using assms by (auto simp: stub_ready_def split: scratch.splits)
  then show ?thesis using ProcessThreadsStub process_threads_stub_returns
    by (simp add: run_stub_def)
next
  case NullStub
  then show ?thesis by (simp add: run_stub_def frame_refl)
qed

lemma vx_wspawn_returns:
  assumes "stub_ready f (mscratch s)"
  shows "\<exists>s'. vx_wspawn dev n f s = Some s' \<and> frame s s'"
proof -
  let ?s0 = "s\<lparr>wspawns := wspawns s @ [(n, f)]\<rparr>"
  have f0: "frame s ?s0" by (simp add: frame_def)
  have "\<exists>s'. run_stub dev f w s = Some s' \<and> frame s s' \<and> stub_ready f (mscratch s')"
    if "stub_ready f (mscratch s)" for w s
    using run_stub_returns [OF that, where dev = dev and w = w] that by (auto simp: frame_def)
  moreover have "stub_ready f (mscratch ?s0)" using assms by simp
  ultimately have "\<exists>s'. for_each (run_stub dev f)
      (map of_nat [1 ..< min (unat n) (unat (vx_num_warps dev))]) ?s0 = Some s' \<and> frame ?s0 s'
      \<and> stub_ready f (mscratch s')"
    by (rule for_each_returns [where I = "\<lambda>s. stub_ready f (mscratch s)"])
  then show ?thesis using f0 by (auto simp: vx_wspawn_def intro: frame_trans)
qed

lemma spawn_groups_returns:
  "\<exists>s'. spawn_groups dev core_id num_groups group_size s =
     Some (groups_active_cores dev num_groups (warps_per_group_of dev group_size) \<le> core_id, s')"
proof -
  let ?d = "GroupsArgs (groups_args dev core_id num_groups group_size)"
  let ?s2 = "(csr_write ?d s)\<lparr>warps_per_group_global := warps_per_group_of dev group_size\<rparr>"
  let ?n = "fst (groups_schedule dev (warps_per_group_of dev group_size)
     (per_core num_groups (groups_active_cores dev num_groups (warps_per_group_of dev group_size))
        core_id))"
  have m: "mscratch ?s2 = ?d" by (simp add: csr_write_def)
  then have "stub_ready ProcessThreadGroupsStub (mscratch ?s2)" by (simp add: stub_ready_def)
  then obtain s3 where 3: "vx_wspawn dev ?n ProcessThreadGroupsStub ?s2 = Some s3" "frame ?s2 s3"
    using vx_wspawn_returns by blast
  then have "mscratch s3 = ?d" using m by (simp add: frame_def)
  then obtain s4 where 4: "process_thread_groups_stub dev 0 s3 = Some s4"
    using process_thread_groups_stub_returns by blast
  show ?thesis using 3(1) 4 by (auto simp add: spawn_groups_def Let_def)
qed

lemma spawn_tasks_returns:
  "\<exists>s'. spawn_tasks dev core_id num_groups s =
     Some (tasks_active_cores dev num_groups \<le> core_id, s')"
proof -
  let ?d = "ThreadsArgs (threads_args dev core_id num_groups)"
  let ?s1 = "csr_write ?d (s\<lparr>warps_per_group_global := 0\<rparr>)"
  let ?n = "fst (tasks_schedule dev
     (per_core num_groups (tasks_active_cores dev num_groups) core_id))"
  let ?r = "per_core num_groups (tasks_active_cores dev num_groups) core_id mod vx_num_threads dev"
  have m: "mscratch ?s1 = ?d" by (simp add: csr_write_def)
  have step: "\<exists>s'. process_threads dev 0 t s = Some s' \<and> frame s s'"
    if "mscratch s = ?d" for t s
    using that by (rule process_threads_returns)
  have rstep: "\<exists>s'. process_remaining_threads 0 t s = Some s' \<and> frame s s'"
    if "mscratch s = ?d" for t s
    using that by (rule process_remaining_threads_returns)
  have full: "\<exists>s2. (if ?n \<ge> 1 then
                          do {
                            a \<leftarrow> vx_wspawn dev ?n ProcessThreadsStub ?s1;
                            b \<leftarrow> simt dev 0 (process_threads dev 0) (vx_tmc 0 (- 1) a);
                            Some (vx_tmc_one 0 b)
                          }
                        else Some ?s1) = Some s2 \<and> mscratch s2 = ?d"
  proof (cases "?n \<ge> 1")
    case True
    have "stub_ready ProcessThreadsStub (mscratch ?s1)" by (simp add: stub_ready_def m)
    then obtain a where a: "vx_wspawn dev ?n ProcessThreadsStub ?s1 = Some a" "frame ?s1 a"
      using vx_wspawn_returns by blast
    then have "mscratch (vx_tmc 0 (- 1) a) = ?d" using m by (simp add: frame_def vx_tmc_def)
    then obtain b where b: "simt dev 0 (process_threads dev 0) (vx_tmc 0 (- 1) a) = Some b"
      "frame (vx_tmc 0 (- 1) a) b"
      using simt_returns [where d = ?d and f = "process_threads dev 0" and dev = dev and w = 0,
          OF step] by blast
    have "mscratch (vx_tmc_one 0 b) = ?d"
      using a(2) b(2) m by (simp add: frame_def vx_tmc_def vx_tmc_one_def)
    then show ?thesis using True a(1) b(1) by simp
  next
    case False
    then show ?thesis using m by simp
  qed
  then obtain s2 where 2: "(if ?n \<ge> 1 then
                          do {
                            a \<leftarrow> vx_wspawn dev ?n ProcessThreadsStub ?s1;
                            b \<leftarrow> simt dev 0 (process_threads dev 0) (vx_tmc 0 (- 1) a);
                            Some (vx_tmc_one 0 b)
                          }
                        else Some ?s1) = Some s2" and m2: "mscratch s2 = ?d" by blast
  have tail: "\<exists>s3. (if ?r \<noteq> 0 then
                          do {
                            c \<leftarrow> simt dev 0 (process_remaining_threads 0)
                                   (vx_tmc 0 (push_bit (unat ?r) 1 - 1) s2);
                            Some (vx_tmc_one 0 c)
                          }
                        else Some s2) = Some s3"
  proof (cases "?r \<noteq> 0")
    case True
    have "mscratch (vx_tmc 0 (push_bit (unat ?r) 1 - 1) s2) = ?d"
      using m2 by (simp add: vx_tmc_def)
    then obtain c where "simt dev 0 (process_remaining_threads 0)
        (vx_tmc 0 (push_bit (unat ?r) 1 - 1) s2) = Some c"
      using simt_returns [where d = ?d and f = "process_remaining_threads 0" and dev = dev
          and w = 0, OF rstep] by blast
    then show ?thesis using True by simp
  next
    case False
    then show ?thesis by simp
  qed
  then obtain s3 where 3: "(if ?r \<noteq> 0 then
                          do {
                            c \<leftarrow> simt dev 0 (process_remaining_threads 0)
                                   (vx_tmc 0 (push_bit (unat ?r) 1 - 1) s2);
                            Some (vx_tmc_one 0 c)
                          }
                        else Some s2) = Some s3" by blast
  show ?thesis
    by (cases "core_id \<ge> tasks_active_cores dev num_groups")
       (auto simp add: spawn_tasks_def Let_def 2 3)
qed

lemma vx_spawn_threads_oversize:
  assumes "vx_num_warps dev * vx_num_threads dev < volume (launch_dims dimension block_dim)"
  shows "vx_spawn_threads dev core_id dimension grid_dim block_dim s =
           Some (- 1, s\<lparr>gridDim := launch_dims dimension grid_dim,
                          blockDim := launch_dims dimension block_dim,
                          console := console s @
                            [(volume (launch_dims dimension block_dim),
                              vx_num_warps dev * vx_num_threads dev)]\<rparr>)"
  using assms by (simp add: vx_spawn_threads_def normalize_eq Let_def)

lemma vx_spawn_threads_returns:
  assumes "\<not> vx_num_warps dev * vx_num_threads dev < volume (launch_dims dimension block_dim)"
  shows "\<exists>s'. vx_spawn_threads dev core_id dimension grid_dim block_dim s = Some (0, s')"
proof -
  let ?n = "volume (launch_dims dimension grid_dim)"
  let ?g = "volume (launch_dims dimension block_dim)"
  let ?s1 = "s\<lparr>gridDim := launch_dims dimension grid_dim,
                blockDim := launch_dims dimension block_dim\<rparr>"
  obtain r s2 where 2: "(if ?g > 1 then spawn_groups dev core_id ?n ?g ?s1
                         else spawn_tasks dev core_id ?n ?s1) = Some (r, s2)"
    using spawn_groups_returns [of dev core_id ?n ?g ?s1] spawn_tasks_returns [of dev core_id ?n ?s1]
    by (cases "?g > 1") auto
  have "stub_ready NullStub (mscratch s2)" by (simp add: stub_ready_def)
  then obtain s3 where 3: "vx_wspawn dev 1 NullStub s2 = Some s3"
    using vx_wspawn_returns by blast
  show ?thesis using assms 2 3
    by (cases r) (simp_all add: vx_spawn_threads_def normalize_eq Let_def)
qed

text \<open>
  Claim C2, amended. Whenever \<open>group_size > warps_per_core * threads_per_warp\<close> the
  call returns -1 and leaves the core as it was (no kernel invocation, no warp spawned,
  no thread mask, scratch CSR or thread-local variable written) except for the
  published globals \<^verbatim>\<open>gridDim\<close> and \<^verbatim>\<open>blockDim\<close>, which hold the dimensions of the
  rejected launch, and the error message; for every other input the call returns 0.
\<close>

theorem C2_oversize_block:
  assumes "valid_device dev"
  shows "(vx_num_warps dev * vx_num_threads dev < volume (launch_dims dimension block_dim) \<longrightarrow>
            vx_spawn_threads dev core_id dimension grid_dim block_dim s =
              Some (- 1, s\<lparr>gridDim := launch_dims dimension grid_dim,
                             blockDim := launch_dims dimension block_dim,
                             console := console s @
                               [(volume (launch_dims dimension block_dim),
                                 vx_num_warps dev * vx_num_threads dev)]\<rparr>))
       \<and> (\<not> vx_num_warps dev * vx_num_threads dev < volume (launch_dims dimension block_dim) \<longrightarrow>
            (\<exists>s'. vx_spawn_threads dev core_id dimension grid_dim block_dim s = Some (0, s')))"
  using vx_spawn_threads_oversize vx_spawn_threads_returns by blast

lemma launch_dims_array3:
  "launch_dims 1 (Some (array3 a b c)) = Dim3 a 1 1"
  "launch_dims 2 (Some (array3 a b c)) = Dim3 a b 1"
  "launch_dims 3 (Some (array3 a b c)) = Dim3 a b c"
  "launch_dims d None = Dim3 1 1 1"
  by (simp_all add: launch_dims_def axis_def array3_def)

theorem C2_oversize_block_witness:
  "valid_device dev244
   \<and> vx_num_warps dev244 * vx_num_threads dev244 < volume (launch_dims 1 (Some (array3 17 1 1)))
   \<and> vx_spawn_threads dev244 0 1 (Some (array3 1 1 1)) (Some (array3 17 1 1)) init_state =
       Some (- 1, init_state\<lparr>gridDim := Dim3 1 1 1, blockDim := Dim3 17 1 1,
                              console := [(17, 16)]\<rparr>)
   \<and> \<not> vx_num_warps dev244 * vx_num_threads dev244 < volume (launch_dims 1 (Some (array3 16 1 1)))
   \<and> map_option fst (vx_spawn_threads dev244 1 1 (Some (array3 1 1 1)) (Some (array3 16 1 1)) init_state)
       = Some 0"
proof -
  have d: "valid_device dev244" by (simp add: launch_eval)
  have o: "vx_num_warps dev244 * vx_num_threads dev244 < volume (launch_dims 1 (Some (array3 17 1 1)))"
    by (simp add: launch_dims_array3 volume_def dev244_def)
  have n: "\<not> vx_num_warps dev244 * vx_num_threads dev244 < volume (launch_dims 1 (Some (array3 16 1 1)))"
    by (simp add: launch_dims_array3 volume_def dev244_def)
  note t = C2_oversize_block [OF d]
  have 1: "vx_spawn_threads dev244 0 1 (Some (array3 1 1 1)) (Some (array3 17 1 1)) init_state =
       Some (- 1, init_state\<lparr>gridDim := Dim3 1 1 1, blockDim := Dim3 17 1 1,
                              console := [(17, 16)]\<rparr>)"
    using t [of 1 "Some (array3 17 1 1)" 0 "Some (array3 1 1 1)" init_state] o
    by (simp add: launch_dims_array3 volume_def) (simp add: init_state_def dev244_def)
  have 2: "map_option fst (vx_spawn_threads dev244 1 1 (Some (array3 1 1 1)) (Some (array3 16 1 1)) init_state)
       = Some 0"
    using t [of 1 "Some (array3 16 1 1)" 1 "Some (array3 1 1 1)" init_state] n by auto
  show ?thesis by (intro conjI d o n 1 2)
qed

text \<open>
  Claim C2 as stated fails on the globals: the loop of lines 166-173 publishes
  \<^verbatim>\<open>gridDim\<close> and \<^verbatim>\<open>blockDim\<close> before the check of line 184, so a rejected launch of one
  block of 17 threads leaves \<open>(1,1,1)\<close> and \<open>(17,1,1)\<close> in them.
\<close>

theorem C2_oversize_block_counterexample:
  "vx_num_warps dev244 * vx_num_threads dev244 < volume (launch_dims 1 (Some (array3 17 1 1)))
   \<and> gridDim init_state = Dim3 0 0 0 \<and> blockDim init_state = Dim3 0 0 0
   \<and> map_option fst
        (vx_spawn_threads dev244 0 1 (Some (array3 1 1 1)) (Some (array3 17 1 1)) init_state)
       = Some (- 1)
   \<and> map_option (\<lambda>r. gridDim (snd r))
        (vx_spawn_threads dev244 0 1 (Some (array3 1 1 1)) (Some (array3 17 1 1)) init_state)
       = Some (Dim3 1 1 1)
   \<and> map_option (\<lambda>r. blockDim (snd r))
        (vx_spawn_threads dev244 0 1 (Some (array3 1 1 1)) (Some (array3 17 1 1)) init_state)
       = Some (Dim3 17 1 1)"
proof -
  have o: "vx_num_warps dev244 * vx_num_threads dev244 < volume (launch_dims 1 (Some (array3 17 1 1)))"
    by (simp add: launch_dims_array3 volume_def dev244_def)
  have i: "gridDim init_state = Dim3 0 0 0 \<and> blockDim init_state = Dim3 0 0 0"
    by (simp add: init_state_def)
  show ?thesis using i o
    by (simp add: vx_spawn_threads_oversize [OF o] launch_dims_array3)
qed

section \<open>Degenerate launches\<close>

lemma round_up_div_zero:
  assumes "0 < (w :: u32)"
  shows "(0 + w - 1) div w = 0"
proof -
  have w0: "w \<noteq> 0" using assms by auto
  have "unat (w - 1) = unat w - 1" using w0 by (rule unat_minus_one)
  moreover have "0 < unat w" using assms by (simp add: word_pos_unat)
  ultimately have "unat (w - 1) div unat w = 0" by simp
  then have "unat ((w - 1) div w) = 0" by (simp only: unat_div)
  then show ?thesis by (simp add: unat_eq_0)
qed

lemma volume_nonzero_axes:
  "volume d \<noteq> 0 \<Longrightarrow>
     dim_x d \<noteq> 0 \<and> dim_y d \<noteq> 0 \<and> dim_z d \<noteq> 0 \<and> dim_x d * dim_y d \<noteq> 0"
  by (auto simp: volume_def)

lemma groups_active_cores_zero:
  assumes "valid_device dev"
  shows "groups_active_cores dev 0 wpg = 0"
proof -
  have "0 < vx_num_warps dev" using assms by (simp add: valid_device_def)
  then show ?thesis using round_up_div_zero [of "vx_num_warps dev"]
    by (simp add: groups_active_cores_def Let_def)
qed

lemma tasks_active_cores_zero:
  assumes "valid_device dev"
  shows "tasks_active_cores dev 0 = 0"
  using round_up_div_zero [OF unat_threads_per_core(2) [OF assms]]
  by (simp add: tasks_active_cores_def Let_def)

lemma zero_axis_volume:
  assumes "i < 3" and "axis grid_dim dimension i = 0"
  shows "volume (launch_dims dimension grid_dim) = 0"
proof -
  have "i = 0 \<or> i = 1 \<or> i = 2" using assms(1) by auto
  then show ?thesis using assms(2) by (auto simp: volume_def launch_dims_def)
qed

text \<open>
  Claim C7. A launch with \<open>num_groups = 0\<close> (as when an axis of the grid is 0, lemma
  \<open>zero_axis_volume\<close>) and a block within capacity returns 0 on every core, invokes
  no kernel and spawns no warp; it writes no thread mask, no thread-local variable
  and no scratch CSR either.
\<close>

theorem C7_zero_grid_noop:
  assumes "valid_device dev"
    and "volume (launch_dims dimension grid_dim) = 0"
    and "volume (launch_dims dimension block_dim) \<le> vx_num_warps dev * vx_num_threads dev"
  shows "\<exists>s'. vx_spawn_threads dev core_id dimension grid_dim block_dim s = Some (0, s')
            \<and> calls s' = calls s \<and> wspawns s' = wspawns s \<and> tmask s' = tmask s
            \<and> tls s' = tls s \<and> mscratch s' = mscratch s \<and> console s' = console s"
proof -
  have v: "\<not> vx_num_warps dev * vx_num_threads dev < volume (launch_dims dimension block_dim)"
    using assms(3) by simp
  show ?thesis
    using v assms(2)
    by (simp add: vx_spawn_threads_def normalize_eq Let_def spawn_groups_def spawn_tasks_def
        groups_active_cores_zero [OF assms(1)] tasks_active_cores_zero [OF assms(1)])
qed

theorem C7_zero_grid_noop_witness:
  "valid_device dev244
   \<and> volume (launch_dims 2 (Some (array3 5 0 1))) = 0
   \<and> volume (launch_dims 2 (Some (array3 2 2 1))) \<le> vx_num_warps dev244 * vx_num_threads dev244
   \<and> map_option fst (vx_spawn_threads dev244 0 2 (Some (array3 5 0 1)) (Some (array3 2 2 1)) init_state)
       = Some 0
   \<and> map_option (\<lambda>r. calls (snd r))
        (vx_spawn_threads dev244 0 2 (Some (array3 5 0 1)) (Some (array3 2 2 1)) init_state) = Some []
   \<and> map_option (\<lambda>r. wspawns (snd r))
        (vx_spawn_threads dev244 0 2 (Some (array3 5 0 1)) (Some (array3 2 2 1)) init_state) = Some []"
proof -
  have d: "valid_device dev244" by (simp add: launch_eval)
  have z: "volume (launch_dims 2 (Some (array3 5 0 1))) = 0"
    by (simp add: launch_dims_array3 volume_def)
  have b: "volume (launch_dims 2 (Some (array3 2 2 1))) \<le> vx_num_warps dev244 * vx_num_threads dev244"
    by (simp add: launch_dims_array3 volume_def dev244_def)
  have i: "calls init_state = [] \<and> wspawns init_state = []" by (simp add: init_state_def)
  obtain s' where "vx_spawn_threads dev244 0 2 (Some (array3 5 0 1)) (Some (array3 2 2 1)) init_state
      = Some (0, s')" "calls s' = calls init_state" "wspawns s' = wspawns init_state"
    using C7_zero_grid_noop [OF d z b, of 0 init_state] by blast
  then show ?thesis using d z b i by simp
qed

section \<open>The tail of the task path\<close>

text \<open>
  Claim C1 fails on the code. On the device of 2 cores, 4 warps and 4 lanes, 5 tasks
  all go to core 0, which runs them as one full warp (tasks 0 to 3) and a tail of one
  lane. The tail runs \<^verbatim>\<open>process_remaining_threads\<close>, which computes \<^verbatim>\<open>task_id\<close> and
  never stores it in \<^verbatim>\<open>blockIdx\<close>: lane 0 still holds the \<^verbatim>\<open>blockIdx\<close> of task 0.
  The kernel sees block 0 twice and never sees block 4. Each entry of the log is the
  warp, the lane, \<^verbatim>\<open>blockIdx\<close> and \<^verbatim>\<open>threadIdx\<close> of one invocation.
\<close>

theorem C1_tail_stub_keeps_blockIdx:
  "kernel_log (vx_spawn_threads dev244 0 1 (Some (array3 5 1 1)) None init_state) =
     Some [(0, 0, Dim3 0 0 0, Dim3 0 0 0), (0, 1, Dim3 1 0 0, Dim3 0 0 0),
           (0, 2, Dim3 2 0 0, Dim3 0 0 0), (0, 3, Dim3 3 0 0, Dim3 0 0 0),
           (0, 0, Dim3 0 0 0, Dim3 0 0 0)]"
  by (simp add: kernel_log_def vx_spawn_threads_def normalize_eq launch_dims_array3 volume_def
      spawn_tasks_def launch_eval init_state_def csr_write_def vx_wspawn_def simt_def
      active_lanes_def lanes_of_mask_def vx_tmc_def vx_tmc_one_def process_threads_def
      process_remaining_threads_def dispatch_loop.simps callback_def update_tls_def
      decompose_def upt_rec run_stub_def)

section \<open>Dimensions\<close>

lemma vx_spawn_threads_dims:
  assumes "launch_dims d gd = launch_dims d' gd'" and "launch_dims d bd = launch_dims d' bd'"
  shows "vx_spawn_threads dev c d gd bd s = vx_spawn_threads dev c d' gd' bd' s"
  by (simp add: vx_spawn_threads_def normalize_eq assms)

lemma axis_ge3:
  assumes "3 \<le> dimension" and "i < 3"
  shows "axis arr dimension i = axis arr 3 i"
proof -
  have "unat (of_nat i :: u32) = i" using assms(2) by (simp add: unat_of_nat)
  moreover have "3 \<le> unat dimension" using assms(1) by (simp add: word_le_nat_alt)
  ultimately have "(of_nat i :: u32) < dimension" "(of_nat i :: u32) < 3"
    using assms(2) by (simp_all add: word_less_nat_alt)
  then show ?thesis by (simp add: axis_def split: option.splits)
qed

lemma launch_dims_ge3:
  assumes "3 \<le> dimension"
  shows "launch_dims dimension arr = launch_dims 3 arr"
proof -
  have "axis arr dimension 0 = axis arr 3 0" by (rule axis_ge3 [OF assms]) simp
  moreover have "axis arr dimension 1 = axis arr 3 1" by (rule axis_ge3 [OF assms]) simp
  moreover have "axis arr dimension 2 = axis arr 3 2" by (rule axis_ge3 [OF assms]) simp
  ultimately show ?thesis by (simp only: launch_dims_def)
qed

lemma launch_dims_0: "launch_dims 0 arr = Dim3 1 1 1"
  by (simp add: launch_dims_def axis_def split: option.splits)

lemma launch_dims_cong:
  assumes "m 0 = m' 0" and "m 1 = m' 1" and "m 2 = m' 2"
  shows "launch_dims dimension (Some m) = launch_dims dimension (Some m')"
  using assms by (simp add: launch_dims_def axis_def)

lemma tasks_active_cores_one:
  assumes "valid_device dev"
  shows "tasks_active_cores dev 1 = 1"
proof -
  have "vx_num_warps dev * vx_num_threads dev \<noteq> 0"
    using unat_threads_per_core(2) [OF assms] by auto
  moreover have "1 \<le> vx_num_cores dev" using assms
    by (simp add: valid_device_def word_le_nat_alt word_less_nat_alt)
  ultimately show ?thesis by (simp add: tasks_active_cores_def Let_def div_word_self)
qed

lemma lanes_of_mask_one:
  assumes "valid_device dev"
  shows "lanes_of_mask dev 1 = [0]"
proof -
  have t: "vx_num_threads dev \<le> 32" "0 < vx_num_threads dev"
    using assms by (simp_all add: valid_device_def)
  then have "1 \<le> unat (vx_num_threads dev)" by (simp add: word_less_nat_alt)
  then have "lanes_of_mask dev (push_bit 1 1 - 1) = map of_nat [0 ..< 1]"
    by (rule lanes_of_mask_low [OF t(1)])
  then show ?thesis by simp
qed

lemma vx_tmc_fields:
  "gridDim (vx_tmc w m s) = gridDim s"
  "blockDim (vx_tmc w m s) = blockDim s"
  "warps_per_group_global (vx_tmc w m s) = warps_per_group_global s"
  "mscratch (vx_tmc w m s) = mscratch s"
  "tmask (vx_tmc w m s) = (tmask s)(w := m)"
  "tls (vx_tmc w m s) = tls s"
  "calls (vx_tmc w m s) = calls s"
  "wspawns (vx_tmc w m s) = wspawns s"
  "console (vx_tmc w m s) = console s"
  by (simp_all add: vx_tmc_def)

lemma csr_write_fields:
  "gridDim (csr_write d s) = gridDim s"
  "blockDim (csr_write d s) = blockDim s"
  "warps_per_group_global (csr_write d s) = warps_per_group_global s"
  "mscratch (csr_write d s) = d"
  "tmask (csr_write d s) = tmask s"
  "tls (csr_write d s) = tls s"
  "calls (csr_write d s) = calls s"
  "wspawns (csr_write d s) = wspawns s"
  "console (csr_write d s) = console s"
  by (simp_all add: csr_write_def)

lemma callback_fields:
  "gridDim (callback w t s) = gridDim s"
  "blockDim (callback w t s) = blockDim s"
  "warps_per_group_global (callback w t s) = warps_per_group_global s"
  "mscratch (callback w t s) = mscratch s"
  "tmask (callback w t s) = tmask s"
  "tls (callback w t s) = tls s"
  "calls (callback w t s) =
     calls s @ [\<lparr>call_warp = w, call_thread = t, call_tls = tls s w t\<rparr>]"
  "wspawns (callback w t s) = wspawns s"
  "console (callback w t s) = console s"
  by (simp_all add: callback_def)

lemma update_tls_fields:
  "gridDim (update_tls w t f s) = gridDim s"
  "blockDim (update_tls w t f s) = blockDim s"
  "warps_per_group_global (update_tls w t f s) = warps_per_group_global s"
  "mscratch (update_tls w t f s) = mscratch s"
  "tmask (update_tls w t f s) = tmask s"
  "tls (update_tls w t f s) = (tls s)(w := (tls s w)(t := f (tls s w t)))"
  "calls (update_tls w t f s) = calls s"
  "wspawns (update_tls w t f s) = wspawns s"
  "console (update_tls w t f s) = console s"
  by (simp_all add: update_tls_def)

lemmas state_fields = vx_tmc_fields csr_write_fields callback_fields update_tls_fields

lemma process_threads_eq:
  "process_threads dev w t s =
     (case mscratch s of
        ThreadsArgs targs \<Rightarrow>
          Some (loop_n (unat (threads_iterations targs w))
            (all_tasks_offset targs + threads_start_warp targs w * vx_num_threads dev + t)
            (all_tasks_offset targs + threads_start_warp targs w * vx_num_threads dev + t
               + threads_iterations targs w * vx_num_threads dev)
            (vx_num_threads dev) w t
            (update_tls w t (\<lambda>l. l\<lparr>local_group_id := 0, threadIdx := Dim3 0 0 0\<rparr>) s))
      | _ \<Rightarrow> None)"
  by (simp add: process_threads_def Let_def dispatch_loop_iterations split: scratch.splits)

lemma single_task_args:
  assumes dev: "valid_device dev"
  shows "per_core 1 1 0 = 1"
    and "vx_num_threads dev = 1 \<Longrightarrow> tasks_schedule dev 1 = (1, 1, 0)"
    and "vx_num_threads dev \<noteq> 1 \<Longrightarrow> tasks_schedule dev 1 = (0, 1, 0)"
    and "all_tasks_offset (threads_args dev 0 1) = 0"
    and "vx_num_threads dev = 1 \<Longrightarrow> threads_iterations (threads_args dev 0 1) 0 = 1"
    and "threads_start_warp (threads_args dev 0 1) 0 = 0"
proof -
  have w: "\<not> 1 > vx_num_warps dev" using dev
    by (simp add: valid_device_def word_less_nat_alt)
  show p: "per_core 1 1 0 = 1"
    by (simp add: per_core_def)
  show s1: "vx_num_threads dev = 1 \<Longrightarrow> tasks_schedule dev 1 = (1, 1, 0)"
    using w by (simp add: tasks_schedule_def)
  show s0: "vx_num_threads dev \<noteq> 1 \<Longrightarrow> tasks_schedule dev 1 = (0, 1, 0)"
    by (simp add: tasks_schedule_def)
  show "all_tasks_offset (threads_args dev 0 1) = 0"
    by (simp add: threads_args_def Let_def core_offset_def split: prod.splits)
  show "vx_num_threads dev = 1 \<Longrightarrow> threads_iterations (threads_args dev 0 1) 0 = 1"
    using s1 by (simp add: threads_args_def Let_def threads_iterations_def p
        tasks_active_cores_one [OF dev])
  show "threads_start_warp (threads_args dev 0 1) 0 = 0"
    by (simp add: threads_start_warp_def)
qed

lemma single_task_launch:
  assumes dev: "valid_device dev"
  shows "\<exists>s'. spawn_tasks dev 0 1 s1 = Some (False, s') \<and> length (calls s') = length (calls s1) + 1"
proof (cases "vx_num_threads dev = 1")
  case True
  note ta = single_task_args [OF dev]
  have l: "lanes_of_mask dev (- 1) = [0]"
    using lanes_of_mask_all [of dev] True by simp
  have m: "min (Suc 0) (unat (vx_num_warps dev)) = Suc 0"
    using dev by (simp add: valid_device_def word_less_nat_alt)
  let ?d = "ThreadsArgs (threads_args dev 0 1)"
  let ?s0 = "csr_write ?d (s1\<lparr>warps_per_group_global := 0\<rparr>)"
  let ?a = "?s0\<lparr>wspawns := wspawns ?s0 @ [(1, ProcessThreadsStub)]\<rparr>"
  have a: "vx_wspawn dev 1 ProcessThreadsStub ?s0 = Some ?a"
    by (simp add: vx_wspawn_def m)
  have ms: "mscratch (vx_tmc 0 (- 1) ?a) = ?d" by (simp add: state_fields)
  have "\<exists>b. simt dev 0 (process_threads dev 0) (vx_tmc 0 (- 1) ?a) = Some b
      \<and> length (calls b) = length (calls s1) + 1"
    by (simp add: simt_def active_lanes_def state_fields l process_threads_eq
        ta(4) ta(5) [OF True] ta(6) True)
  then obtain b where b: "simt dev 0 (process_threads dev 0) (vx_tmc 0 (- 1) ?a) = Some b"
      "length (calls b) = length (calls s1) + 1" by blast
  have "spawn_tasks dev 0 1 s1 = Some (False, vx_tmc_one 0 b)"
    using True a b(1)
    by (simp add: spawn_tasks_def Let_def tasks_active_cores_one [OF dev] ta(1) ta(2) [OF True])
  then show ?thesis using b(2) by (simp add: vx_tmc_one_def state_fields)
next
  case False
  note ta = single_task_args [OF dev]
  let ?d = "ThreadsArgs (threads_args dev 0 1)"
  let ?s0 = "csr_write ?d (s1\<lparr>warps_per_group_global := 0\<rparr>)"
  have ms: "mscratch (vx_tmc 0 1 ?s0) = ?d" by (simp add: state_fields)
  have r: "(1 :: u32) mod vx_num_threads dev = 1" using False by simp
  have "simt dev 0 (process_remaining_threads 0) (vx_tmc 0 1 ?s0) =
      Some (callback 0 0 (vx_tmc 0 1 ?s0))"
    by (simp add: simt_def active_lanes_def state_fields lanes_of_mask_one [OF dev]
        process_remaining_threads_def)
  then have "spawn_tasks dev 0 1 s1 = Some (False, vx_tmc_one 0 (callback 0 0 (vx_tmc 0 1 ?s0)))"
    using False
    by (simp add: spawn_tasks_def Let_def tasks_active_cores_one [OF dev] ta(1) ta(3) [OF False] r)
  then show ?thesis by (simp add: vx_tmc_one_def state_fields)
qed

lemma vx_wspawn_one:
  "vx_wspawn dev 1 f s = Some (s\<lparr>wspawns := wspawns s @ [(1, f)]\<rparr>)"
proof -
  have "min (unat (1 :: u32)) (unat (vx_num_warps dev)) \<le> 1" by simp
  then have "[1 ..< min (unat (1 :: u32)) (unat (vx_num_warps dev))] = []" by simp
  then show ?thesis by (simp only: vx_wspawn_def list.map for_each.simps)
qed

lemma single_block_launch:
  assumes dev: "valid_device dev"
    and g: "volume (launch_dims dimension grid_dim) = 1"
    and b: "volume (launch_dims dimension block_dim) = 1"
  shows "\<exists>s'. vx_spawn_threads dev 0 dimension grid_dim block_dim s = Some (0, s')
            \<and> length (calls s') = length (calls s) + 1"
    and "core_id \<noteq> 0 \<Longrightarrow>
           \<exists>s'. vx_spawn_threads dev core_id dimension grid_dim block_dim s = Some (0, s')
             \<and> calls s' = calls s"
proof -
  let ?s1 = "s\<lparr>gridDim := launch_dims dimension grid_dim,
                blockDim := launch_dims dimension block_dim\<rparr>"
  have v: "\<not> vx_num_warps dev * vx_num_threads dev < 1"
    using unat_threads_per_core(2) [OF dev] by auto
  obtain s' where s': "spawn_tasks dev 0 1 ?s1 = Some (False, s')"
      "length (calls s') = length (calls ?s1) + 1"
    using single_task_launch [OF dev, of ?s1] by blast
  show "\<exists>s'. vx_spawn_threads dev 0 dimension grid_dim block_dim s = Some (0, s')
            \<and> length (calls s') = length (calls s) + 1"
    using v s' by (simp add: vx_spawn_threads_def normalize_eq g b vx_wspawn_one)
  assume "core_id \<noteq> 0"
  then have "1 \<le> core_id" by (simp add: word_le_nat_alt unat_gt_0 Suc_leI)
  then show "\<exists>s'. vx_spawn_threads dev core_id dimension grid_dim block_dim s = Some (0, s')
             \<and> calls s' = calls s"
    using v by (simp add: vx_spawn_threads_def normalize_eq g b spawn_tasks_def
        tasks_active_cores_one [OF dev])
qed

text \<open>
  Claim C10. Any \<^verbatim>\<open>dimension\<close> is accepted. With \<open>dimension = 0\<close> every axis defaults
  to 1: \<^verbatim>\<open>num_groups = group_size = 1\<close>, core 0 returns 0 after exactly one kernel
  invocation and every other core returns 0 after none, as for a launch of
  dimension 3 with grid and block \<open>(1,1,1)\<close>. A \<open>dimension\<close> of 3 or more behaves as
  3, only the elements 0, 1 and 2 of the two arrays matter, and an axis whose index
  is \<open>dimension\<close> or more is 1.
\<close>

theorem C10_dimension_tolerance:
  assumes "valid_device dev"
  shows "normalize 0 grid_dim block_dim s =
           (1, 1, s\<lparr>gridDim := Dim3 1 1 1, blockDim := Dim3 1 1 1\<rparr>)
       \<and> (\<exists>s'. vx_spawn_threads dev 0 0 grid_dim block_dim s = Some (0, s')
              \<and> length (calls s') = length (calls s) + 1)
       \<and> (core_id \<noteq> 0 \<longrightarrow>
            (\<exists>s'. vx_spawn_threads dev core_id 0 grid_dim block_dim s = Some (0, s')
               \<and> calls s' = calls s))
       \<and> vx_spawn_threads dev core_id 0 grid_dim block_dim s =
           vx_spawn_threads dev core_id 3 (Some (array3 1 1 1)) (Some (array3 1 1 1)) s
       \<and> (3 \<le> dimension \<longrightarrow>
            vx_spawn_threads dev core_id dimension grid_dim block_dim s =
            vx_spawn_threads dev core_id 3 grid_dim block_dim s)
       \<and> (g 0 = g' 0 \<and> g 1 = g' 1 \<and> g 2 = g' 2 \<and> b 0 = b' 0 \<and> b 1 = b' 1 \<and> b 2 = b' 2 \<longrightarrow>
            vx_spawn_threads dev core_id dimension (Some g) (Some b) s =
            vx_spawn_threads dev core_id dimension (Some g') (Some b') s)
       \<and> (i < 3 \<and> dimension \<le> of_nat i \<longrightarrow>
            axis grid_dim dimension i = 1 \<and> axis block_dim dimension i = 1)"
proof -
  have v: "volume (launch_dims 0 arr) = 1" for arr
    by (simp add: launch_dims_0 volume_def)
  have 1: "normalize 0 grid_dim block_dim s =
           (1, 1, s\<lparr>gridDim := Dim3 1 1 1, blockDim := Dim3 1 1 1\<rparr>)"
    by (simp add: normalize_eq launch_dims_0 volume_def)
  note 2 = single_block_launch(1) [OF assms v v, of grid_dim block_dim s]
  have 3: "core_id \<noteq> 0 \<longrightarrow>
            (\<exists>s'. vx_spawn_threads dev core_id 0 grid_dim block_dim s = Some (0, s')
               \<and> calls s' = calls s)"
    using single_block_launch(2) [OF assms v v, of core_id grid_dim block_dim s] by blast
  have 4: "vx_spawn_threads dev core_id 0 grid_dim block_dim s =
           vx_spawn_threads dev core_id 3 (Some (array3 1 1 1)) (Some (array3 1 1 1)) s"
    by (rule vx_spawn_threads_dims) (simp_all add: launch_dims_0 launch_dims_array3)
  have 5: "3 \<le> dimension \<longrightarrow>
            vx_spawn_threads dev core_id dimension grid_dim block_dim s =
            vx_spawn_threads dev core_id 3 grid_dim block_dim s"
    using vx_spawn_threads_dims [OF launch_dims_ge3 launch_dims_ge3] by blast
  have 6: "g 0 = g' 0 \<and> g 1 = g' 1 \<and> g 2 = g' 2 \<and> b 0 = b' 0 \<and> b 1 = b' 1 \<and> b 2 = b' 2 \<longrightarrow>
            vx_spawn_threads dev core_id dimension (Some g) (Some b) s =
            vx_spawn_threads dev core_id dimension (Some g') (Some b') s"
    using vx_spawn_threads_dims [OF launch_dims_cong launch_dims_cong] by blast
  have 7: "i < 3 \<and> dimension \<le> of_nat i \<longrightarrow>
            axis grid_dim dimension i = 1 \<and> axis block_dim dimension i = 1"
    by (simp add: axis_def not_less [symmetric] split: option.splits)
  show ?thesis using 1 2 3 4 5 6 7 by blast
qed

theorem C10_dimension_tolerance_witness:
  "valid_device dev244
   \<and> map_option fst (vx_spawn_threads dev244 0 0 None None init_state) = Some 0
   \<and> map_option (\<lambda>r. length (calls (snd r))) (vx_spawn_threads dev244 0 0 None None init_state)
       = Some 1
   \<and> (1 :: u32) \<noteq> 0
   \<and> map_option (\<lambda>r. calls (snd r)) (vx_spawn_threads dev244 1 0 None None init_state) = Some []
   \<and> (3 :: u32) \<le> 7
   \<and> vx_spawn_threads dev244 0 7 (Some (array3 2 2 1)) (Some (array3 2 2 1)) init_state =
       vx_spawn_threads dev244 0 3 (Some (array3 2 2 1)) (Some (array3 2 2 1)) init_state
   \<and> (2 :: nat) < 3 \<and> (2 :: u32) \<le> of_nat 2
   \<and> axis (Some (array3 5 6 7)) 2 2 = 1"
proof -
  have d: "valid_device dev244" by (simp add: launch_eval)
  have i: "calls init_state = []" by (simp add: init_state_def)
  note t = C10_dimension_tolerance [OF d]
  obtain s' where 1: "vx_spawn_threads dev244 0 0 None None init_state = Some (0, s')"
      "length (calls s') = length (calls init_state) + 1"
    using t [of None None init_state] by blast
  have n: "(1 :: u32) \<noteq> 0" by simp
  obtain s'' where 2: "vx_spawn_threads dev244 1 0 None None init_state = Some (0, s'')"
      "calls s'' = calls init_state"
    using t [of None None init_state 1] n by blast
  have l: "(3 :: u32) \<le> 7" by simp
  have 3: "vx_spawn_threads dev244 0 7 (Some (array3 2 2 1)) (Some (array3 2 2 1)) init_state =
       vx_spawn_threads dev244 0 3 (Some (array3 2 2 1)) (Some (array3 2 2 1)) init_state"
    using t [of "Some (array3 2 2 1)" "Some (array3 2 2 1)" init_state 0 7] l by blast
  have k: "(2 :: nat) < 3 \<and> (2 :: u32) \<le> of_nat 2" by simp
  have 4: "axis (Some (array3 5 6 7)) 2 2 = 1"
    using C10_dimension_tolerance [OF d, where i = 2 and dimension = 2
      and grid_dim = "Some (array3 5 6 7)"] k by blast
  show ?thesis using d 1 2 n l 3 i k 4 by simp
qed

section \<open>The task path does not read the block dimensions\<close>

lemma with_blockDim_fields:
  "gridDim (with_blockDim B s) = gridDim s"
  "blockDim (with_blockDim B s) = B"
  "warps_per_group_global (with_blockDim B s) = warps_per_group_global s"
  "mscratch (with_blockDim B s) = mscratch s"
  "tmask (with_blockDim B s) = tmask s"
  "tls (with_blockDim B s) = tls s"
  "calls (with_blockDim B s) = calls s"
  "wspawns (with_blockDim B s) = wspawns s"
  "console (with_blockDim B s) = console s"
  by (simp_all add: with_blockDim_def)

lemma with_blockDim_commute:
  "callback w t (with_blockDim B s) = with_blockDim B (callback w t s)"
  "update_tls w t f (with_blockDim B s) = with_blockDim B (update_tls w t f s)"
  "vx_tmc w m (with_blockDim B s) = with_blockDim B (vx_tmc w m s)"
  "vx_tmc_one w (with_blockDim B s) = with_blockDim B (vx_tmc_one w s)"
  "vx_tmc_zero w (with_blockDim B s) = with_blockDim B (vx_tmc_zero w s)"
  "csr_write d (with_blockDim B s) = with_blockDim B (csr_write d s)"
  by (simp_all add: with_blockDim_def callback_def update_tls_def vx_tmc_def vx_tmc_one_def
      vx_tmc_zero_def csr_write_def)

lemma loop_n_blockDim:
  "loop_n k i e step w t (with_blockDim B s) = with_blockDim B (loop_n k i e step w t s)"
  by (induction k arbitrary: i s) (simp_all add: with_blockDim_commute with_blockDim_fields)

lemma process_threads_blockDim:
  "process_threads dev w t (with_blockDim B s) =
     map_option (with_blockDim B) (process_threads dev w t s)"
  by (simp add: process_threads_eq with_blockDim_fields with_blockDim_commute loop_n_blockDim
      split: scratch.splits)

lemma process_remaining_threads_blockDim:
  "process_remaining_threads w t (with_blockDim B s) =
     map_option (with_blockDim B) (process_remaining_threads w t s)"
  by (simp add: process_remaining_threads_def with_blockDim_fields with_blockDim_commute
      split: scratch.splits)

lemma for_each_blockDim:
  assumes "\<And>a s. f a (with_blockDim B s) = map_option (with_blockDim B) (f a s)"
  shows "for_each f xs (with_blockDim B s) = map_option (with_blockDim B) (for_each f xs s)"
  by (induction xs arbitrary: s) (simp_all add: assms split: option.splits)

lemma simt_blockDim:
  assumes "\<And>t s. f t (with_blockDim B s) = map_option (with_blockDim B) (f t s)"
  shows "simt dev w f (with_blockDim B s) = map_option (with_blockDim B) (simt dev w f s)"
  by (simp add: simt_def active_lanes_def with_blockDim_fields
      for_each_blockDim [where f = f and B = B, OF assms])

lemma process_threads_stub_blockDim:
  "process_threads_stub dev w (with_blockDim B s) =
     map_option (with_blockDim B) (process_threads_stub dev w s)"
  by (simp add: process_threads_stub_def with_blockDim_commute
      simt_blockDim [where f = "process_threads dev w" and B = B, OF process_threads_blockDim]
      split: option.splits bind_splits)

lemma run_stub_blockDim:
  assumes "f \<noteq> ProcessThreadGroupsStub"
  shows "run_stub dev f w (with_blockDim B s) = map_option (with_blockDim B) (run_stub dev f w s)"
  using assms by (cases f) (simp_all add: run_stub_def process_threads_stub_blockDim)

lemma vx_wspawn_blockDim:
  assumes "f \<noteq> ProcessThreadGroupsStub"
  shows "vx_wspawn dev n f (with_blockDim B s) = map_option (with_blockDim B) (vx_wspawn dev n f s)"
proof -
  have "(with_blockDim B s)\<lparr>wspawns := wspawns (with_blockDim B s) @ [(n, f)]\<rparr> =
        with_blockDim B (s\<lparr>wspawns := wspawns s @ [(n, f)]\<rparr>)"
    by (simp add: with_blockDim_def)
  then show ?thesis
    by (simp only: vx_wspawn_def
        for_each_blockDim [where f = "run_stub dev f" and B = B, OF run_stub_blockDim [OF assms]])
qed

lemma spawn_tasks_blockDim:
  "spawn_tasks dev c n (with_blockDim B s) =
     map_option (\<lambda>r. (fst r, with_blockDim B (snd r))) (spawn_tasks dev c n s)"
proof -
  have w: "(with_blockDim B s)\<lparr>warps_per_group_global := 0\<rparr> =
           with_blockDim B (s\<lparr>warps_per_group_global := 0\<rparr>)"
    by (simp add: with_blockDim_def)
  show ?thesis
    by (simp add: spawn_tasks_def Let_def w with_blockDim_commute vx_wspawn_blockDim
        simt_blockDim [where f = "process_threads dev 0" and B = B, OF process_threads_blockDim]
        simt_blockDim [where f = "process_remaining_threads 0" and B = B,
          OF process_remaining_threads_blockDim]
        split: option.splits bind_splits)
qed

section \<open>Counting the kernel invocations of the task path\<close>

lemma loop_n_calls:
  assumes "unat i + k * unat step < 2 ^ 32" and "0 < unat step"
  shows "length (calls (loop_n k i (i + of_nat k * step) step w t s)) = length (calls s) + k"
  using assms(1)
proof (induction k arbitrary: i s)
  case 0
  show ?case by simp
next
  case (Suc k)
  let ?e = "i + of_nat (Suc k) * step"
  have e: "?e = (i + step) + of_nat k * step" by (simp add: algebra_simps)
  have b1: "unat i + unat step < 2 ^ LENGTH(32)" using Suc.prems by simp
  then have isum: "unat (i + step) = unat i + unat step" by (simp only: unat_add_lem [THEN iffD1])
  have "unat (of_nat (Suc k) :: u32) = Suc k"
  proof -
    have "Suc k * 1 \<le> Suc k * unat step" using assms(2) by (intro mult_le_mono2) simp
    then have "Suc k \<le> Suc k * unat step" by simp
    then have "Suc k < 2 ^ LENGTH(32)" using Suc.prems by simp
    then show ?thesis by (simp only: unat_of_nat mod_less)
  qed
  then have "unat (of_nat (Suc k) :: u32) * unat step < 2 ^ LENGTH(32)" using Suc.prems by simp
  then have m: "unat (of_nat (Suc k) * step) = Suc k * unat step"
    using \<open>unat (of_nat (Suc k) :: u32) = Suc k\<close> by (simp only: unat_mult_lem [THEN iffD1])
  have L: "(2 :: nat) ^ LENGTH(32) = 2 ^ 32" by simp
  have "unat i + unat (of_nat (Suc k) * step) < 2 ^ LENGTH(32)" using Suc.prems by (simp only: m L)
  then have "unat ?e = unat i + Suc k * unat step"
    by (simp only: unat_add_lem [THEN iffD1] m)
  then have lt: "i < ?e" using assms(2) by (simp add: word_less_nat_alt)
  have b2: "unat (i + step) + k * unat step < 2 ^ 32" using Suc.prems by (simp add: isum)
  let ?s' = "callback w t (update_tls w t (\<lambda>l. l\<lparr>blockIdx := decompose (gridDim s) i\<rparr>) s)"
  have "length (calls (loop_n k (i + step) ((i + step) + of_nat k * step) step w t ?s')) =
        length (calls ?s') + k"
    using b2 by (rule Suc.IH)
  then have "length (calls (loop_n k (i + step) ?e step w t ?s')) = length (calls s) + Suc k"
    by (simp only: e) (simp add: state_fields)
  then show ?case using lt by (simp only: loop_n.simps if_True)
qed

lemma unat_add_le: "unat (x + y :: u32) \<le> unat x + unat y"
  by (simp add: unat_word_ariths)

lemma unat_mult_le: "unat (x * y :: u32) \<le> unat x * unat y"
  by (simp add: unat_word_ariths)

lemma tasks_schedule_sound:
  assumes wp: "0 < vx_num_warps dev"
    and sch: "tasks_schedule dev T = (aw, b, r)"
  shows "unat aw * unat b + unat r = unat T div unat (vx_num_threads dev)"
    and "unat r \<le> unat aw"
    and "0 < unat r \<Longrightarrow> unat (b + 1) = unat b + 1"
    and "unat aw \<le> unat (vx_num_warps dev)"
proof -
  let ?w = "vx_num_warps dev"
  let ?t = "T div vx_num_threads dev"
  have awp: "0 < unat ?w" using wp by (simp add: word_pos_unat)
  have all: "unat aw * unat b + unat r = unat ?t \<and> unat r \<le> unat aw
      \<and> (0 < unat r \<longrightarrow> unat (b + 1) = unat b + 1) \<and> unat aw \<le> unat ?w"
  proof (cases "?w < ?t")
    case True
    then have eq: "aw = ?w" "b = ?t div ?w" "r = ?t mod ?w"
      using sch by (auto simp add: tasks_schedule_def Let_def)
    have bq: "unat b = unat ?t div unat ?w" and rq: "unat r = unat ?t mod unat ?w"
      by (simp_all only: eq(2,3) unat_div unat_mod)
    have s: "unat aw * unat b + unat r = unat ?t" by (simp add: bq rq eq(1))
    have rl: "unat r \<le> unat aw" using awp by (simp add: rq eq(1) less_imp_le)
    have suc: "0 < unat r \<longrightarrow> unat (b + 1) = unat b + 1"
    proof
      assume "0 < unat r"
      then have "unat ?t mod unat ?w \<noteq> 0" by (simp add: rq)
      then have "unat ?t div unat ?w * unat ?w < unat ?t" by (rule div_mod_bounds(1) [OF awp])
      moreover have "unat ?t div unat ?w \<le> unat ?t div unat ?w * unat ?w" using awp by simp
      ultimately have "unat ?t div unat ?w < unat ?t" by linarith
      then have "unat b < unat ?t" by (simp only: bq)
      then show "unat (b + 1) = unat b + 1" by (rule unat_succ)
    qed
    show ?thesis using s rl suc by (simp add: eq(1))
  next
    case False
    then have eq: "aw = ?t" "b = 1" "r = 0"
      using sch by (simp_all add: tasks_schedule_def Let_def)
    have "unat ?t \<le> unat ?w" using False by (simp add: word_less_nat_alt)
    then show ?thesis by (simp add: eq)
  qed
  show "unat aw * unat b + unat r = unat T div unat (vx_num_threads dev)"
    using all by (simp add: unat_div)
  show "unat r \<le> unat aw" using all by blast
  show "0 < unat r \<Longrightarrow> unat (b + 1) = unat b + 1" using all by blast
  show "unat aw \<le> unat (vx_num_warps dev)" using all by blast
qed

lemma slab_within:
  assumes "c < a"
  shows "unat (core_offset n a c) + unat (per_core n a c) \<le> unat n"
proof -
  let ?q = "unat n div unat a" and ?r = "unat n mod unat a"
  have a: "0 < unat a" and ca: "Suc (unat c) \<le> unat a"
    using assms by (simp_all add: word_less_nat_alt)
  have "unat (core_offset n a c) + unat (per_core n a c) = nat_offset ?q ?r (Suc (unat c))"
    by (simp add: unat_core_offset [OF assms] unat_per_core [OF assms] nat_offset_Suc)
       (simp add: nat_offset_def nat_size_def)
  also have "\<dots> \<le> nat_offset ?q ?r (unat a)" using ca by (rule nat_offset_mono)
  also have "\<dots> = unat n" by (rule nat_offset_total [OF a])
  finally show ?thesis .
qed

lemma threads_args_fields:
  "all_tasks_offset (threads_args dev c n) = core_offset n (tasks_active_cores dev n) c"
  "warp_batches_t (threads_args dev c n) =
     fst (snd (tasks_schedule dev (per_core n (tasks_active_cores dev n) c)))"
  "remaining_warps_t (threads_args dev c n) =
     snd (snd (tasks_schedule dev (per_core n (tasks_active_cores dev n) c)))"
  by (simp_all add: threads_args_def Let_def split: prod.splits)

lemma process_threads_calls:
  assumes dev: "valid_device dev"
    and c: "c < tasks_active_cores dev n"
    and fit: "unat n + unat (vx_num_warps dev) * unat (vx_num_threads dev) \<le> 2 ^ 32"
    and sch: "tasks_schedule dev (per_core n (tasks_active_cores dev n) c) = (aw, b, r)"
    and w: "unat w < unat aw"
    and t: "unat t < unat (vx_num_threads dev)"
    and ms: "mscratch s = ThreadsArgs (threads_args dev c n)"
  shows "\<exists>s'. process_threads dev w t s = Some s' \<and> mscratch s' = mscratch s \<and>
           length (calls s') = length (calls s) + (unat b + (if unat w < unat r then 1 else 0))"
proof -
  let ?a = "tasks_active_cores dev n"
  let ?targs = "threads_args dev c n"
  let ?tpw = "vx_num_threads dev"
  let ?it = "threads_iterations ?targs w"
  let ?sw = "threads_start_warp ?targs w"
  let ?start = "all_tasks_offset ?targs + ?sw * ?tpw + t"
  let ?s1 = "update_tls w t (\<lambda>l. l\<lparr>local_group_id := 0, threadIdx := Dim3 0 0 0\<rparr>) s"
  define Off T P W where "Off = unat (core_offset n ?a c)" and "T = unat (per_core n ?a c)"
    and "P = unat ?tpw" and "W = T div P"
  have wp: "0 < vx_num_warps dev" and tp: "0 < ?tpw" using dev by (simp_all add: valid_device_def)
  have Pp: "0 < P" using tp by (simp add: P_def word_pos_unat)
  have wpn: "1 \<le> unat (vx_num_warps dev)" using wp by (simp add: word_less_nat_alt)
  note ss = tasks_schedule_sound [OF wp sch]
  have f: "all_tasks_offset ?targs = core_offset n ?a c" "warp_batches_t ?targs = b"
    "remaining_warps_t ?targs = r"
    by (simp_all add: threads_args_fields sch)
  have it: "unat ?it = nat_size (unat b) (unat r) (unat w)"
    by (simp add: threads_iterations_def f unat_iterations [OF ss(3)] nat_size_def)
  have "unat ?sw \<le> unat (w * b) + unat (min w r)"
    unfolding threads_start_warp_def f by (rule unat_add_le)
  also have "\<dots> \<le> unat w * unat b + min (unat w) (unat r)"
    using unat_mult_le [of w b] by (simp add: unat_min)
  finally have sw: "unat ?sw \<le> nat_offset (unat b) (unat r) (unat w)"
    by (simp add: nat_offset_def)
  have "nat_offset (unat b) (unat r) (Suc (unat w)) \<le> nat_offset (unat b) (unat r) (unat aw)"
    using w by (intro nat_offset_mono) simp
  also have "\<dots> = W"
  proof -
    have "min (unat aw) (unat r) = unat r" using ss(2) by simp
    then have "nat_offset (unat b) (unat r) (unat aw) = unat aw * unat b + unat r"
      by (simp only: nat_offset_def)
    then show ?thesis using ss(1) by (simp only: W_def T_def P_def)
  qed
  finally have le_W: "unat ?sw + unat ?it \<le> W"
    using sw by (simp add: it nat_offset_Suc)
  have "(unat ?sw + unat ?it) * P \<le> W * P" using le_W by (rule mult_le_mono1)
  also have "\<dots> \<le> T" by (simp add: W_def)
  finally have 1: "unat ?sw * P + unat ?it * P \<le> T" by (simp add: algebra_simps)
  have 2: "Off + T \<le> unat n" unfolding Off_def T_def by (rule slab_within [OF c])
  have "1 * P \<le> unat (vx_num_warps dev) * P" using wpn by (rule mult_le_mono1)
  then have "unat n + P \<le> unat n + unat (vx_num_warps dev) * P" by simp
  also have "\<dots> \<le> 2 ^ 32" using fit by (simp only: P_def)
  finally have 3: "unat n + P \<le> 2 ^ 32" .
  have "unat ?start \<le> unat (all_tasks_offset ?targs + ?sw * ?tpw) + unat t" by (rule unat_add_le)
  also have "\<dots> \<le> unat (all_tasks_offset ?targs) + unat (?sw * ?tpw) + unat t"
    using unat_add_le [of "all_tasks_offset ?targs" "?sw * ?tpw"] by simp
  also have "\<dots> \<le> Off + unat ?sw * P + unat t"
    using unat_mult_le [of ?sw ?tpw] by (simp add: f Off_def P_def)
  finally have 4: "unat ?start \<le> Off + unat ?sw * P + unat t" .
  have bound: "unat ?start + unat ?it * unat ?tpw < 2 ^ 32"
    using 1 2 3 4 t by (simp add: P_def)
  have e: "?start + ?it * ?tpw = ?start + of_nat (unat ?it) * ?tpw" by simp
  have "length (calls (loop_n (unat ?it) ?start (?start + of_nat (unat ?it) * ?tpw) ?tpw w t ?s1))
        = length (calls ?s1) + unat ?it"
    using bound Pp by (intro loop_n_calls) (simp_all add: P_def)
  then have "length (calls (loop_n (unat ?it) ?start (?start + ?it * ?tpw) ?tpw w t ?s1))
        = length (calls ?s1) + unat ?it"
    by (simp only: e [symmetric])
  then have len: "length (calls (loop_n (unat ?it) ?start (?start + ?it * ?tpw) ?tpw w t ?s1))
        = length (calls s) + nat_size (unat b) (unat r) (unat w)"
    by (simp add: it state_fields)
  have "frame ?s1 (loop_n (unat ?it) ?start (?start + ?it * ?tpw) ?tpw w t ?s1)"
    by (rule frame_loop_n)
  then have m: "mscratch (loop_n (unat ?it) ?start (?start + ?it * ?tpw) ?tpw w t ?s1) = mscratch s"
    by (simp add: frame_def state_fields)
  show ?thesis
    using len m by (simp add: process_threads_eq ms nat_size_def)
qed

lemma for_each_calls:
  assumes "\<And>a s. a \<in> set xs \<Longrightarrow> mscratch s = d \<Longrightarrow>
             \<exists>s'. f a s = Some s' \<and> mscratch s' = d \<and> length (calls s') = length (calls s) + g a"
    and "mscratch s = d"
  shows "\<exists>s'. for_each f xs s = Some s' \<and> mscratch s' = d \<and>
           length (calls s') = length (calls s) + sum_list (map g xs)"
  using assms
proof (induction xs arbitrary: s)
  case Nil
  then show ?case by simp
next
  case (Cons a xs)
  obtain s1 where 1: "f a s = Some s1" "mscratch s1 = d" "length (calls s1) = length (calls s) + g a"
    using Cons.prems(1) [of a s] Cons.prems(2) by auto
  have "\<exists>s'. for_each f xs s1 = Some s' \<and> mscratch s' = d \<and>
           length (calls s') = length (calls s1) + sum_list (map g xs)"
    using Cons.prems(1) 1(2) by (intro Cons.IH) auto
  then show ?case using 1 by auto
qed

lemma sum_list_const_upt: "sum_list (map (\<lambda>i. k) [0 ..< n]) = n * (k :: nat)"
  by (induction n) simp_all

lemma full_warp_calls:
  assumes dev: "valid_device dev"
    and c: "c < tasks_active_cores dev n"
    and fit: "unat n + unat (vx_num_warps dev) * unat (vx_num_threads dev) \<le> 2 ^ 32"
    and sch: "tasks_schedule dev (per_core n (tasks_active_cores dev n) c) = (aw, b, r)"
    and w: "unat w < unat aw"
    and ms: "mscratch s = ThreadsArgs (threads_args dev c n)"
  shows "\<exists>s'. simt dev w (process_threads dev w) (vx_tmc w (- 1) s) = Some s' \<and>
           mscratch s' = mscratch s \<and>
           length (calls s') = length (calls s)
             + unat (vx_num_threads dev) * nat_size (unat b) (unat r) (unat w)"
proof -
  let ?d = "ThreadsArgs (threads_args dev c n)"
  let ?P = "unat (vx_num_threads dev)"
  let ?k = "nat_size (unat b) (unat r) (unat w)"
  have t32: "vx_num_threads dev \<le> 32" using dev by (simp add: valid_device_def)
  have lanes: "active_lanes dev w (vx_tmc w (- 1) s) = map of_nat [0 ..< ?P]"
    by (simp add: active_lanes_def state_fields lanes_of_mask_all [OF t32])
  have step: "\<exists>s'. process_threads dev w t s = Some s' \<and> mscratch s' = ?d \<and>
      length (calls s') = length (calls s) + ?k"
    if "t \<in> set (map of_nat [0 ..< ?P])" and "mscratch s = ?d" for t :: u32 and s
  proof -
    have "t \<in> of_nat ` {0 ..< ?P}" using that(1) by simp
    then obtain i where i: "i < ?P" "t = of_nat i" by (elim imageE) simp
    have "unat t < ?P" using i by (simp add: unat_lane [OF i(1)])
    then show ?thesis
      using process_threads_calls [OF dev c fit sch w _ that(2)] that(2)
      by (simp add: nat_size_def)
  qed
  have "\<exists>s'. for_each (process_threads dev w) (map of_nat [0 ..< ?P]) (vx_tmc w (- 1) s) = Some s'
      \<and> mscratch s' = ?d \<and>
      length (calls s') = length (calls (vx_tmc w (- 1) s))
        + sum_list (map (\<lambda>t. ?k) (map of_nat [0 ..< ?P] :: u32 list))"
    by (rule for_each_calls [where g = "\<lambda>t. ?k", OF step]) (simp_all add: state_fields ms)
  then show ?thesis
    by (simp add: simt_def lanes state_fields ms comp_def sum_list_const_upt)
qed

lemma process_threads_stub_calls:
  assumes dev: "valid_device dev"
    and c: "c < tasks_active_cores dev n"
    and fit: "unat n + unat (vx_num_warps dev) * unat (vx_num_threads dev) \<le> 2 ^ 32"
    and sch: "tasks_schedule dev (per_core n (tasks_active_cores dev n) c) = (aw, b, r)"
    and w: "unat w < unat aw"
    and ms: "mscratch s = ThreadsArgs (threads_args dev c n)"
  shows "\<exists>s'. process_threads_stub dev w s = Some s' \<and> mscratch s' = mscratch s \<and>
           length (calls s') = length (calls s)
             + unat (vx_num_threads dev) * nat_size (unat b) (unat r) (unat w)"
proof -
  obtain s1 where "simt dev w (process_threads dev w) (vx_tmc w (- 1) s) = Some s1"
    "mscratch s1 = mscratch s"
    "length (calls s1) = length (calls s)
       + unat (vx_num_threads dev) * nat_size (unat b) (unat r) (unat w)"
    using full_warp_calls [OF assms] by blast
  then show ?thesis by (simp add: process_threads_stub_def vx_tmc_zero_def state_fields)
qed

lemma sum_list_nat_size:
  "sum_list (map (\<lambda>j. P * nat_size b r j) [0 ..< k]) = P * nat_offset b r k"
  by (induction k) (simp_all add: nat_offset_Suc algebra_simps, simp add: nat_offset_def)

lemma vx_wspawn_threads_calls:
  assumes dev: "valid_device dev"
    and c: "c < tasks_active_cores dev n"
    and fit: "unat n + unat (vx_num_warps dev) * unat (vx_num_threads dev) \<le> 2 ^ 32"
    and sch: "tasks_schedule dev (per_core n (tasks_active_cores dev n) c) = (aw, b, r)"
    and ms: "mscratch s = ThreadsArgs (threads_args dev c n)"
  shows "\<exists>s'. vx_wspawn dev aw ProcessThreadsStub s = Some s' \<and> mscratch s' = mscratch s \<and>
           length (calls s') = length (calls s)
             + sum_list (map (\<lambda>j. unat (vx_num_threads dev) * nat_size (unat b) (unat r) j)
                  [1 ..< unat aw])"
proof -
  let ?d = "ThreadsArgs (threads_args dev c n)"
  let ?P = "unat (vx_num_threads dev)"
  let ?s0 = "s\<lparr>wspawns := wspawns s @ [(aw, ProcessThreadsStub)]\<rparr>"
  let ?ws = "map of_nat [1 ..< unat aw] :: u32 list"
  have wp: "0 < vx_num_warps dev" using dev by (simp add: valid_device_def)
  note ss = tasks_schedule_sound [OF wp sch]
  have m: "min (unat aw) (unat (vx_num_warps dev)) = unat aw" using ss(4) by simp
  have u: "unat (of_nat j :: u32) = j" if "j < unat aw" for j
    using that by (rule unat_lane)
  have step: "\<exists>s'. run_stub dev ProcessThreadsStub w s = Some s' \<and> mscratch s' = ?d \<and>
      length (calls s') = length (calls s) + ?P * nat_size (unat b) (unat r) (unat w)"
    if "w \<in> set ?ws" and "mscratch s = ?d" for w s
  proof -
    have "w \<in> of_nat ` {1 ..< unat aw}" using that(1) by simp
    then obtain j where "j \<in> {1 ..< unat aw}" and wj: "w = of_nat j" by (rule imageE)
    then have j: "j < unat aw" by simp
    have "unat w < unat aw" using j by (simp add: u wj)
    then show ?thesis
      using process_threads_stub_calls [OF dev c fit sch _ that(2)] that(2)
      by (simp add: run_stub_def)
  qed
  have "\<exists>s'. for_each (run_stub dev ProcessThreadsStub) ?ws ?s0 = Some s' \<and> mscratch s' = ?d \<and>
      length (calls s') = length (calls ?s0)
        + sum_list (map (\<lambda>w. ?P * nat_size (unat b) (unat r) (unat w)) ?ws)"
    by (rule for_each_calls [where g = "\<lambda>w. ?P * nat_size (unat b) (unat r) (unat w)", OF step])
       (simp_all add: ms)
  then obtain s' where s': "for_each (run_stub dev ProcessThreadsStub) ?ws ?s0 = Some s'"
      "mscratch s' = ?d"
      "length (calls s') = length (calls ?s0)
        + sum_list (map (\<lambda>w. ?P * nat_size (unat b) (unat r) (unat w)) ?ws)"
    by blast
  have E: "map (\<lambda>w. ?P * nat_size (unat b) (unat r) (unat w)) ?ws =
      map (\<lambda>j. ?P * nat_size (unat b) (unat r) j) [1 ..< unat aw]"
    by (simp add: comp_def u cong: map_cong)
  have len: "length (calls s') = length (calls s)
      + sum_list (map (\<lambda>j. ?P * nat_size (unat b) (unat r) j) [1 ..< unat aw])"
    using s'(3) unfolding E by simp
  have "vx_wspawn dev aw ProcessThreadsStub s = Some s'"
    by (simp only: vx_wspawn_def m s'(1))
  then show ?thesis using s'(2) len ms by simp
qed

lemma full_warps_calls:
  assumes dev: "valid_device dev"
    and c: "c < tasks_active_cores dev n"
    and fit: "unat n + unat (vx_num_warps dev) * unat (vx_num_threads dev) \<le> 2 ^ 32"
    and sch: "tasks_schedule dev (per_core n (tasks_active_cores dev n) c) = (aw, b, r)"
    and ms: "mscratch s = ThreadsArgs (threads_args dev c n)"
  shows "\<exists>s'. (if aw \<ge> 1 then
                  do {
                    a \<leftarrow> vx_wspawn dev aw ProcessThreadsStub s;
                    b \<leftarrow> simt dev 0 (process_threads dev 0) (vx_tmc 0 (- 1) a);
                    Some (vx_tmc_one 0 b)
                  }
                else Some s) = Some s' \<and> mscratch s' = mscratch s \<and>
           length (calls s') = length (calls s)
             + unat (vx_num_threads dev)
               * (unat (per_core n (tasks_active_cores dev n) c) div unat (vx_num_threads dev))"
proof -
  let ?P = "unat (vx_num_threads dev)"
  let ?W = "unat (per_core n (tasks_active_cores dev n) c) div ?P"
  have wp: "0 < vx_num_warps dev" using dev by (simp add: valid_device_def)
  note ss = tasks_schedule_sound [OF wp sch]
  have tot: "nat_offset (unat b) (unat r) (unat aw) = ?W"
  proof -
    have "min (unat aw) (unat r) = unat r" using ss(2) by simp
    then have "nat_offset (unat b) (unat r) (unat aw) = unat aw * unat b + unat r"
      by (simp only: nat_offset_def)
    then show ?thesis using ss(1) by simp
  qed
  show ?thesis
  proof (cases "aw \<ge> 1")
    case True
    then have awp: "0 < unat aw" by (simp add: word_le_nat_alt)
    obtain a where a: "vx_wspawn dev aw ProcessThreadsStub s = Some a" "mscratch a = mscratch s"
      "length (calls a) = length (calls s)
         + sum_list (map (\<lambda>j. ?P * nat_size (unat b) (unat r) j) [1 ..< unat aw])"
      using vx_wspawn_threads_calls [OF assms] by blast
    have ma: "mscratch a = ThreadsArgs (threads_args dev c n)" using a(2) ms by simp
    have "unat (0 :: u32) < unat aw" using awp by simp
    then obtain b' where b': "simt dev 0 (process_threads dev 0) (vx_tmc 0 (- 1) a) = Some b'"
      "mscratch b' = mscratch a"
      "length (calls b') = length (calls a) + ?P * nat_size (unat b) (unat r) (unat (0 :: u32))"
      using full_warp_calls [OF dev c fit sch _ ma] by blast
    have "[0 ..< unat aw] = 0 # [1 ..< unat aw]" using awp by (simp add: upt_conv_Cons)
    then have "sum_list (map (\<lambda>j. ?P * nat_size (unat b) (unat r) j) [0 ..< unat aw]) =
        ?P * nat_size (unat b) (unat r) 0
        + sum_list (map (\<lambda>j. ?P * nat_size (unat b) (unat r) j) [1 ..< unat aw])"
      by simp
    then have "length (calls b') = length (calls s) + ?P * ?W"
      using a(3) b'(3) by (simp add: sum_list_nat_size tot)
    then show ?thesis using True a(1,2) b'(1,2) by (simp add: vx_tmc_one_def state_fields)
  next
    case False
    then have "unat aw = 0" by (simp add: word_le_nat_alt)
    then have "?W = 0" using ss(1) ss(2) by simp
    then show ?thesis using False by simp
  qed
qed

lemma tail_calls:
  assumes dev: "valid_device dev"
    and ms: "mscratch s = ThreadsArgs targs"
  shows "\<exists>s'. (if T mod vx_num_threads dev \<noteq> 0 then
                  do {
                    c \<leftarrow> simt dev 0 (process_remaining_threads 0)
                           (vx_tmc 0 (push_bit (unat (T mod vx_num_threads dev)) 1 - 1) s);
                    Some (vx_tmc_one 0 c)
                  }
                else Some s) = Some s' \<and>
           length (calls s') = length (calls s) + unat T mod unat (vx_num_threads dev)"
proof (cases "T mod vx_num_threads dev \<noteq> 0")
  case True
  let ?R = "unat (T mod vx_num_threads dev)"
  let ?d = "ThreadsArgs targs"
  let ?s1 = "vx_tmc 0 (push_bit ?R 1 - 1) s"
  have t32: "vx_num_threads dev \<le> 32" and tp: "0 < vx_num_threads dev"
    using dev by (simp_all add: valid_device_def)
  have R: "?R = unat T mod unat (vx_num_threads dev)" by (simp add: unat_mod)
  have "0 < unat (vx_num_threads dev)" using tp by (simp add: word_pos_unat)
  then have Rl: "?R \<le> unat (vx_num_threads dev)" by (simp add: R less_imp_le)
  have lanes: "active_lanes dev 0 ?s1 = map of_nat [0 ..< ?R]"
    by (simp only: active_lanes_def vx_tmc_fields fun_upd_same lanes_of_mask_low [OF t32 Rl])
  have step: "\<exists>s'. process_remaining_threads 0 t s = Some s' \<and> mscratch s' = ?d \<and>
      length (calls s') = length (calls s) + 1"
    if "mscratch s = ?d" for t s
    using that by (simp add: process_remaining_threads_def state_fields)
  have "\<exists>s'. for_each (process_remaining_threads 0) (map of_nat [0 ..< ?R]) ?s1 = Some s'
      \<and> mscratch s' = ?d \<and>
      length (calls s') = length (calls ?s1)
        + sum_list (map (\<lambda>t. 1) (map of_nat [0 ..< ?R] :: u32 list))"
    by (rule for_each_calls [where g = "\<lambda>t. 1", OF step]) (simp_all add: state_fields ms)
  then obtain c where c: "for_each (process_remaining_threads 0) (map of_nat [0 ..< ?R]) ?s1 = Some c"
    "length (calls c) = length (calls s) + ?R"
    by (auto simp add: state_fields comp_def sum_list_const_upt)
  have "simt dev 0 (process_remaining_threads 0) ?s1 = Some c"
    by (simp only: simt_def lanes c(1))
  then show ?thesis using True c(2) by (simp add: vx_tmc_one_def state_fields R)
next
  case False
  then have "unat (T mod vx_num_threads dev) = 0" by simp
  then have "unat T mod unat (vx_num_threads dev) = 0" by (simp add: unat_mod)
  then show ?thesis using False by simp
qed

lemma spawn_tasks_calls:
  assumes dev: "valid_device dev"
    and c: "c < tasks_active_cores dev n"
    and fit: "unat n + unat (vx_num_warps dev) * unat (vx_num_threads dev) \<le> 2 ^ 32"
  shows "\<exists>s'. spawn_tasks dev c n s = Some (False, s') \<and>
           length (calls s') = length (calls s) + unat (per_core n (tasks_active_cores dev n) c)"
proof -
  let ?T = "per_core n (tasks_active_cores dev n) c"
  let ?d = "ThreadsArgs (threads_args dev c n)"
  let ?s1 = "csr_write ?d (s\<lparr>warps_per_group_global := 0\<rparr>)"
  obtain aw b r where sch: "tasks_schedule dev ?T = (aw, b, r)"
    by (cases "tasks_schedule dev ?T") auto
  have ms: "mscratch ?s1 = ?d" by (simp add: state_fields)
  obtain s2 where 2: "(if aw \<ge> 1 then
                  do {
                    a \<leftarrow> vx_wspawn dev aw ProcessThreadsStub ?s1;
                    b \<leftarrow> simt dev 0 (process_threads dev 0) (vx_tmc 0 (- 1) a);
                    Some (vx_tmc_one 0 b)
                  }
                else Some ?s1) = Some s2" "mscratch s2 = mscratch ?s1"
      "length (calls s2) = length (calls ?s1)
         + unat (vx_num_threads dev) * (unat ?T div unat (vx_num_threads dev))"
    using full_warps_calls [OF dev c fit sch ms] by blast
  have ms2: "mscratch s2 = ?d" using 2(2) ms by simp
  obtain s3 where 3: "(if ?T mod vx_num_threads dev \<noteq> 0 then
                  do {
                    c \<leftarrow> simt dev 0 (process_remaining_threads 0)
                           (vx_tmc 0 (push_bit (unat (?T mod vx_num_threads dev)) 1 - 1) s2);
                    Some (vx_tmc_one 0 c)
                  }
                else Some s2) = Some s3"
      "length (calls s3) = length (calls s2) + unat ?T mod unat (vx_num_threads dev)"
    using tail_calls [OF dev ms2, of ?T] by blast
  have "length (calls s3) = length (calls s) + unat ?T"
    using 2(3) 3(2) by (simp add: state_fields)
  moreover have "spawn_tasks dev c n s = Some (False, s3)"
  proof -
    have nc: "\<not> tasks_active_cores dev n \<le> c" using c by simp
    show ?thesis
      by (simp only: spawn_tasks_def Let_def sch fst_conv nc if_False 2(1) 3(1)
          Option.bind.bind_lunit)
  qed
  ultimately show ?thesis by simp
qed

lemma tasks_launch_calls:
  assumes dev: "valid_device dev"
    and g: "volume (launch_dims dimension block_dim) \<le> 1"
    and fit: "unat (volume (launch_dims dimension grid_dim))
                + unat (vx_num_warps dev) * unat (vx_num_threads dev) \<le> 2 ^ 32"
  shows "\<exists>s'. vx_spawn_threads dev c dimension grid_dim block_dim s = Some (0, s') \<and>
           length (calls s') = length (calls s)
             + (if c < tasks_active_cores dev (volume (launch_dims dimension grid_dim))
                then unat (per_core (volume (launch_dims dimension grid_dim))
                       (tasks_active_cores dev (volume (launch_dims dimension grid_dim))) c)
                else 0)"
proof -
  let ?n = "volume (launch_dims dimension grid_dim)"
  let ?gs = "volume (launch_dims dimension block_dim)"
  let ?s1 = "s\<lparr>gridDim := launch_dims dimension grid_dim,
                blockDim := launch_dims dimension block_dim\<rparr>"
  have "0 < vx_num_warps dev * vx_num_threads dev" using dev by (rule unat_threads_per_core(2))
  then have "1 \<le> vx_num_warps dev * vx_num_threads dev"
    by (simp add: word_le_nat_alt word_less_nat_alt)
  then have v: "\<not> vx_num_warps dev * vx_num_threads dev < ?gs" using g by simp
  have ng: "\<not> ?gs > 1" using g by simp
  have run: "vx_spawn_threads dev c dimension grid_dim block_dim s =
      do {
        (returned, s2) \<leftarrow> spawn_tasks dev c ?n ?s1;
        if returned then Some (0, s2)
        else do { s3 \<leftarrow> vx_wspawn dev 1 NullStub s2; Some (0, s3) }
      }"
    using v ng by (simp add: vx_spawn_threads_def normalize_eq Let_def)
  show ?thesis
  proof (cases "c < tasks_active_cores dev ?n")
    case True
    obtain s' where "spawn_tasks dev c ?n ?s1 = Some (False, s')"
      "length (calls s') = length (calls ?s1) + unat (per_core ?n (tasks_active_cores dev ?n) c)"
      using spawn_tasks_calls [OF dev True fit] by blast
    then show ?thesis using True by (simp add: run vx_wspawn_one)
  next
    case False
    then have "tasks_active_cores dev ?n \<le> c" by simp
    then show ?thesis using False by (simp add: run spawn_tasks_def Let_def)
  qed
qed

lemma sum_nat_size: "(\<Sum>i<k. nat_size q r i) = nat_offset q r k"
  by (induction k) (simp_all add: nat_offset_Suc, simp add: nat_offset_def)

lemma sum_per_core:
  assumes "0 < a"
  shows "(\<Sum>c | c < a. unat (per_core n a c)) = unat n"
proof -
  let ?q = "unat n div unat a" and ?r = "unat n mod unat a"
  have ap: "0 < unat a" using assms by (simp add: word_pos_unat)
  have "(\<Sum>c | c < a. unat (per_core n a c)) = (\<Sum>c | c < a. nat_size ?q ?r (unat c))"
    by (rule sum.cong) (simp_all add: unat_per_core nat_size_def)
  also have "\<dots> = (\<Sum>i<unat a. nat_size ?q ?r i)"
    by (rule sum_below_word [where a = a and g = "nat_size ?q ?r"])
  also have "\<dots> = unat n" by (simp only: sum_nat_size nat_offset_total [OF ap])
  finally show ?thesis .
qed

lemma tasks_launch_total:
  assumes dev: "valid_device dev"
    and g: "volume (launch_dims dimension block_dim) \<le> 1"
    and n: "0 < volume (launch_dims dimension grid_dim)"
    and fit: "unat (volume (launch_dims dimension grid_dim))
                + unat (vx_num_warps dev) * unat (vx_num_threads dev) \<le> 2 ^ 32"
  shows "(\<Sum>c | c < vx_num_cores dev.
            invocations s (vx_spawn_threads dev c dimension grid_dim block_dim s)) =
         unat (volume (launch_dims dimension grid_dim))"
proof -
  let ?n = "volume (launch_dims dimension grid_dim)"
  let ?a = "tasks_active_cores dev ?n"
  let ?f = "\<lambda>c. invocations s (vx_spawn_threads dev c dimension grid_dim block_dim s)"
  have ap: "0 < ?a" using dev n fit by (rule tasks_active_cores_pos)
  have inv: "?f c = (if c < ?a then unat (per_core ?n ?a c) else 0)" for c
    using tasks_launch_calls [OF dev g fit, of c s] by (auto simp: invocations_def)
  have "?a \<le> vx_num_cores dev" by (simp add: tasks_active_cores_def Let_def)
  then have sub: "{c. c < ?a} \<subseteq> {c. c < vx_num_cores dev}" by auto
  have "sum ?f {c. c < ?a} = sum ?f {c. c < vx_num_cores dev}"
    by (rule sum.mono_neutral_left [OF _ sub]) (auto simp: inv)
  moreover have "sum ?f {c. c < ?a} = (\<Sum>c | c < ?a. unat (per_core ?n ?a c))"
    by (rule sum.cong) (simp_all add: inv)
  ultimately show ?thesis using sum_per_core [OF ap, of ?n] by simp
qed

lemma zero_block_as_one:
  assumes dev: "valid_device dev"
    and g0: "volume (launch_dims dimension block_dim) = 0"
    and g1: "volume (launch_dims dimension block_one) = 1"
  shows "vx_spawn_threads dev c dimension grid_dim block_dim s =
     map_option (\<lambda>r. (fst r, with_blockDim (launch_dims dimension block_dim) (snd r)))
       (vx_spawn_threads dev c dimension grid_dim block_one s)"
proof -
  let ?n = "volume (launch_dims dimension grid_dim)"
  let ?B = "launch_dims dimension block_dim"
  let ?s1 = "s\<lparr>gridDim := launch_dims dimension grid_dim,
                blockDim := launch_dims dimension block_one\<rparr>"
  have "0 < vx_num_warps dev * vx_num_threads dev" using dev by (rule unat_threads_per_core(2))
  then have v: "\<not> vx_num_warps dev * vx_num_threads dev < 1"
    by (simp add: word_less_nat_alt)
  have s0: "s\<lparr>gridDim := launch_dims dimension grid_dim, blockDim := ?B\<rparr> = with_blockDim ?B ?s1"
    by (simp add: with_blockDim_def)
  have n: "NullStub \<noteq> ProcessThreadGroupsStub" by simp
  show ?thesis
    using v
    by (simp add: vx_spawn_threads_def normalize_eq Let_def g0 g1 s0 spawn_tasks_blockDim
        vx_wspawn_blockDim [OF n] split: option.splits bind_splits prod.splits)
qed

text \<open>
  Claim C9, amended. If \<open>group_size = 0\<close> (as when an axis of the block is 0) while
  \<open>num_groups > 0\<close>, and the launch is within 32-bit arithmetic
  (\<open>num_groups + warps_per_core * threads_per_warp \<le> 2^32\<close>), the call returns 0 on
  every core, the kernel is invoked \<open>num_groups\<close> times in total over the cores, and
  on every core the invocations, the warps spawned and the result are those of the
  same launch with a block of size 1: it takes the task path.
\<close>

theorem C9_zero_sized_block:
  assumes "valid_device dev"
    and "volume (launch_dims dimension block_dim) = 0"
    and "0 < volume (launch_dims dimension grid_dim)"
    and "unat (volume (launch_dims dimension grid_dim))
           + unat (vx_num_warps dev) * unat (vx_num_threads dev) \<le> 2 ^ 32"
    and "volume (launch_dims dimension block_one) = 1"
  shows "(\<forall>c. \<exists>s'. vx_spawn_threads dev c dimension grid_dim block_dim s = Some (0, s'))
       \<and> (\<Sum>c | c < vx_num_cores dev.
             invocations s (vx_spawn_threads dev c dimension grid_dim block_dim s)) =
           unat (volume (launch_dims dimension grid_dim))
       \<and> (\<forall>c. kernel_log (vx_spawn_threads dev c dimension grid_dim block_dim s) =
                kernel_log (vx_spawn_threads dev c dimension grid_dim block_one s)
              \<and> map_option (\<lambda>r. wspawns (snd r))
                  (vx_spawn_threads dev c dimension grid_dim block_dim s) =
                map_option (\<lambda>r. wspawns (snd r))
                  (vx_spawn_threads dev c dimension grid_dim block_one s)
              \<and> map_option fst (vx_spawn_threads dev c dimension grid_dim block_dim s) =
                map_option fst (vx_spawn_threads dev c dimension grid_dim block_one s))"
proof -
  have le: "volume (launch_dims dimension block_dim) \<le> 1" using assms(2) by simp
  have 1: "\<exists>s'. vx_spawn_threads dev c dimension grid_dim block_dim s = Some (0, s')" for c
    using tasks_launch_calls [OF assms(1) le assms(4), of c s] by blast
  have 2: "(\<Sum>c | c < vx_num_cores dev.
             invocations s (vx_spawn_threads dev c dimension grid_dim block_dim s)) =
           unat (volume (launch_dims dimension grid_dim))"
    using assms(1) le assms(3,4) by (rule tasks_launch_total)
  have 3: "kernel_log (vx_spawn_threads dev c dimension grid_dim block_dim s) =
                kernel_log (vx_spawn_threads dev c dimension grid_dim block_one s)
              \<and> map_option (\<lambda>r. wspawns (snd r))
                  (vx_spawn_threads dev c dimension grid_dim block_dim s) =
                map_option (\<lambda>r. wspawns (snd r))
                  (vx_spawn_threads dev c dimension grid_dim block_one s)
              \<and> map_option fst (vx_spawn_threads dev c dimension grid_dim block_dim s) =
                map_option fst (vx_spawn_threads dev c dimension grid_dim block_one s)" for c
    by (simp add: zero_block_as_one [OF assms(1,2,5)] kernel_log_def option.map_comp comp_def
        with_blockDim_fields)
  show ?thesis using 1 2 3 by blast
qed

theorem C9_zero_sized_block_witness:
  "valid_device dev244
   \<and> volume (launch_dims 2 (Some (array3 0 5 1))) = 0
   \<and> 0 < volume (launch_dims 2 (Some (array3 3 1 1)))
   \<and> unat (volume (launch_dims 2 (Some (array3 3 1 1))))
        + unat (vx_num_warps dev244) * unat (vx_num_threads dev244) \<le> 2 ^ 32
   \<and> volume (launch_dims 2 None) = 1
   \<and> map_option fst
        (vx_spawn_threads dev244 0 2 (Some (array3 3 1 1)) (Some (array3 0 5 1)) init_state) = Some 0
   \<and> (\<Sum>c | c < vx_num_cores dev244.
         invocations init_state
           (vx_spawn_threads dev244 c 2 (Some (array3 3 1 1)) (Some (array3 0 5 1)) init_state)) = 3
   \<and> kernel_log (vx_spawn_threads dev244 0 2 (Some (array3 3 1 1)) (Some (array3 0 5 1)) init_state) =
       kernel_log (vx_spawn_threads dev244 0 2 (Some (array3 3 1 1)) None init_state)"
proof -
  have d: "valid_device dev244" by (simp add: launch_eval)
  have z: "volume (launch_dims 2 (Some (array3 0 5 1))) = 0"
    by (simp add: launch_dims_array3 volume_def)
  have p: "0 < volume (launch_dims 2 (Some (array3 3 1 1)))"
    by (simp add: launch_dims_array3 volume_def)
  have f: "unat (volume (launch_dims 2 (Some (array3 3 1 1))))
        + unat (vx_num_warps dev244) * unat (vx_num_threads dev244) \<le> 2 ^ 32"
    by (simp add: launch_dims_array3 volume_def dev244_def)
  have o: "volume (launch_dims 2 None) = 1"
    by (simp add: launch_dims_array3 volume_def)
  have n: "unat (volume (launch_dims 2 (Some (array3 3 1 1)))) = 3"
    by (simp add: launch_dims_array3 volume_def)
  note t = C9_zero_sized_block [OF d z p f o, of init_state]
  obtain s' where
    "vx_spawn_threads dev244 0 2 (Some (array3 3 1 1)) (Some (array3 0 5 1)) init_state = Some (0, s')"
    using t by blast
  then have 1: "map_option fst
        (vx_spawn_threads dev244 0 2 (Some (array3 3 1 1)) (Some (array3 0 5 1)) init_state) = Some 0"
    by simp
  have 2: "(\<Sum>c | c < vx_num_cores dev244.
         invocations init_state
           (vx_spawn_threads dev244 c 2 (Some (array3 3 1 1)) (Some (array3 0 5 1)) init_state)) = 3"
    using t n by simp
  have 3: "kernel_log (vx_spawn_threads dev244 0 2 (Some (array3 3 1 1)) (Some (array3 0 5 1)) init_state) =
       kernel_log (vx_spawn_threads dev244 0 2 (Some (array3 3 1 1)) None init_state)"
    using t by blast
  show ?thesis by (intro conjI d z p f o 1 2 3)
qed

text \<open>
  Claim C9 as stated fails when the rounding-up sum of line 279 wraps around:
  \<open>2^32 - 1\<close> tasks on cores of 16 lanes give \<open>needed_cores = (2^32 - 1 + 15) mod 2^32
  div 16 = 0\<close>, no core is active and the kernel is never invoked.
\<close>

theorem C9_zero_sized_block_counterexample:
  "valid_device dev244
   \<and> volume (launch_dims 1 (Some (array3 0 1 1))) = 0
   \<and> volume (launch_dims 1 (Some (array3 4294967295 1 1))) = 4294967295
   \<and> tasks_active_cores dev244 4294967295 = 0
   \<and> kernel_log (vx_spawn_threads dev244 0 1 (Some (array3 4294967295 1 1))
         (Some (array3 0 1 1)) init_state) = Some []
   \<and> kernel_log (vx_spawn_threads dev244 1 1 (Some (array3 4294967295 1 1))
         (Some (array3 0 1 1)) init_state) = Some []"
  by (simp add: launch_eval kernel_log_def vx_spawn_threads_def normalize_eq launch_dims_array3
      volume_def spawn_tasks_def init_state_def)

end
